theory Spec2Isabelle
  imports Main "HOL-Library.Word"
begin

unbundle bit_operations_syntax

section \<open>Errors\<close>

text \<open>
  A Go \<open>error\<close> value is \<open>error option\<close>: \<open>None\<close> is \<open>nil\<close>.  The constructors are the
  error values that occur in the program and in the library calls it makes.
  \<open>syscall.WaitStatus\<close> is a \<open>uint32\<close>.
\<close>

type_synonym WaitStatus = "32 word"

datatype error =
    Canceled                          \<comment> \<open>\<open>context.Canceled\<close>\<close>
  | DeadlineExceeded                  \<comment> \<open>\<open>context.DeadlineExceeded\<close>\<close>
  | ErrSyntax                         \<comment> \<open>\<open>strconv.ErrSyntax\<close>\<close>
  | ErrRange                          \<comment> \<open>\<open>strconv.ErrRange\<close>\<close>
  | NumError string string error      \<comment> \<open>\<open>*strconv.NumError{Func, Num, Err}\<close>\<close>
  | errors_New string                 \<comment> \<open>\<open>errors.New(text)\<close>, and any other leaf error\<close>
  | Errorf_d string int               \<comment> \<open>\<open>fmt.Errorf("...: %d", n)\<close>\<close>
  | Errorf_w string error             \<comment> \<open>\<open>fmt.Errorf("...: %w", err)\<close>\<close>
  | ExitError "WaitStatus option"     \<comment> \<open>\<open>*exec.ExitError\<close>, with what \<open>Sys()\<close> holds\<close>
  | joinError "error list"            \<comment> \<open>the result of \<open>errors.Join\<close>\<close>
  | Panic string                      \<comment> \<open>a run-time panic\<close>

section \<open>Data model\<close>

text \<open>
  A slice is a list; a \<open>nil\<close> slice and an empty slice are both the empty list.  A
  \<open>*slog.Logger\<close> is the handler it writes to, and \<open>None\<close> when the pointer is \<open>nil\<close>.
  The instances of a group are distinct objects, so the slice of pointers to them is the
  list of the instances.
\<close>

datatype Logger = DiscardHandler | JSONHandler | TextHandler

record Instance =
  Name :: string
  Args :: "string list"
  Watch :: bool
  Logger :: "Logger option"

record Group =
  Instances :: "Instance list"

record Options =
  args :: "string list"
  watch :: string
  logger :: "Logger option"

type_synonym Option = "Options \<Rightarrow> Options"

definition WithArgs :: "string list \<Rightarrow> Option" where
  "WithArgs a = (\<lambda>opts. opts\<lparr>args := a\<rparr>)"

definition WithWatch :: "string \<Rightarrow> Option" where
  "WithWatch w = (\<lambda>opts. opts\<lparr>watch := w\<rparr>)"

definition WithLogger :: "Logger option \<Rightarrow> Option" where
  "WithLogger l = (\<lambda>opts. opts\<lparr>logger := l\<rparr>)"

section \<open>Argument partitioner\<close>

text \<open>
  \<open>slicesSplitSeq\<close> ranges over \<open>s\<close> with the index \<open>i\<close> and the segment start \<open>start\<close>,
  yields \<open>s[start:i]\<close> at every separator and \<open>s[start:]\<close> at the end.  The fourth
  argument of the loop is the part of \<open>s\<close> still to be visited.  \<open>slices.Collect\<close>
  never stops the iteration early, so every yield is collected.
\<close>

fun slicesSplitSeq_loop :: "'a list \<Rightarrow> 'a \<Rightarrow> nat \<Rightarrow> nat \<Rightarrow> 'a list \<Rightarrow> 'a list list" where
  "slicesSplitSeq_loop s sep start i [] = [drop start s]"
| "slicesSplitSeq_loop s sep start i (v # rest) =
     (if v = sep
      then take (i - start) (drop start s) # slicesSplitSeq_loop s sep (i + 1) (i + 1) rest
      else slicesSplitSeq_loop s sep start (i + 1) rest)"

definition slicesSplitSeq :: "'a list \<Rightarrow> 'a \<Rightarrow> 'a list list" where
  "slicesSplitSeq s sep = slicesSplitSeq_loop s sep 0 0 s"

definition parseArgs :: "string list \<Rightarrow> string list list" where
  "parseArgs a = slicesSplitSeq a ''--''"

section \<open>Library functions used by the watch-set resolver\<close>

text \<open>
  A Go string is its sequence of bytes, here \<open>string\<close>.  \<open>strings.SplitSeq\<close> with a
  one-byte separator cuts at every occurrence of it and yields what is left at the end,
  so it yields at least one piece.
\<close>

function strings_SplitSeq :: "string \<Rightarrow> char \<Rightarrow> string list" where
  "strings_SplitSeq s sep =
     (case dropWhile (\<lambda>c. c \<noteq> sep) s of
        [] \<Rightarrow> [s]
      | _ # rest \<Rightarrow> takeWhile (\<lambda>c. c \<noteq> sep) s # strings_SplitSeq rest sep)"
  by pat_completeness auto
termination
proof (relation "measure (\<lambda>(s, sep). length s)")
  show "wf (measure (\<lambda>(s, sep). length s))" by simp
next
  fix s :: string and sep x rest
  assume "dropWhile (\<lambda>c. c \<noteq> sep) s = x # rest"
  then have "length (x # rest) \<le> length s"
    by (metis length_dropWhile_le)
  then show "((rest, sep), (s, sep)) \<in> measure (\<lambda>(s, sep). length s)" by simp
qed

declare strings_SplitSeq.simps [simp del]

text \<open>
  \<open>strings.TrimSpace\<close> removes leading and trailing white space as \<open>unicode.IsSpace\<close>
  defines it: the six ASCII characters tab, line feed, vertical tab, form feed, carriage
  return and space, and the code points U+0085, U+00A0, U+1680, U+2000 to U+200A, U+2028,
  U+2029, U+202F, U+205F and U+3000.  On the bytes of the string these are the UTF-8
  encodings below; a byte sequence that is not one of them decodes to a rune that is no
  white space.
\<close>

definition whiteSpace :: "string list" where
  "whiteSpace =
     [[CHR 0x09], [CHR 0x0A], [CHR 0x0B], [CHR 0x0C], [CHR 0x0D], [CHR 0x20],
      [CHR 0xC2, CHR 0x85], [CHR 0xC2, CHR 0xA0], [CHR 0xE1, CHR 0x9A, CHR 0x80],
      [CHR 0xE2, CHR 0x80, CHR 0x80], [CHR 0xE2, CHR 0x80, CHR 0x81],
      [CHR 0xE2, CHR 0x80, CHR 0x82], [CHR 0xE2, CHR 0x80, CHR 0x83],
      [CHR 0xE2, CHR 0x80, CHR 0x84], [CHR 0xE2, CHR 0x80, CHR 0x85],
      [CHR 0xE2, CHR 0x80, CHR 0x86], [CHR 0xE2, CHR 0x80, CHR 0x87],
      [CHR 0xE2, CHR 0x80, CHR 0x88], [CHR 0xE2, CHR 0x80, CHR 0x89],
      [CHR 0xE2, CHR 0x80, CHR 0x8A], [CHR 0xE2, CHR 0x80, CHR 0xA8],
      [CHR 0xE2, CHR 0x80, CHR 0xA9], [CHR 0xE2, CHR 0x80, CHR 0xAF],
      [CHR 0xE2, CHR 0x81, CHR 0x9F], [CHR 0xE3, CHR 0x80, CHR 0x80]]"

definition asciiSpace :: "char \<Rightarrow> bool" where
  "asciiSpace c \<longleftrightarrow> c \<in> {CHR 0x09, CHR 0x0A, CHR 0x0B, CHR 0x0C, CHR 0x0D, CHR 0x20}"

definition leadingSpace :: "string \<Rightarrow> string option" where
  "leadingSpace s = List.find (\<lambda>enc. take (length enc) s = enc) whiteSpace"

definition trailingSpace :: "string \<Rightarrow> string option" where
  "trailingSpace s = List.find (\<lambda>enc. take (length enc) (rev s) = rev enc) whiteSpace"

function TrimLeftSpace :: "string \<Rightarrow> string" where
  "TrimLeftSpace s =
     (case leadingSpace s of None \<Rightarrow> s | Some enc \<Rightarrow> TrimLeftSpace (drop (length enc) s))"
  by pat_completeness auto
termination
proof (relation "measure length")
  show "wf (measure (length :: string \<Rightarrow> nat))" by simp
next
  fix s enc :: string
  assume "leadingSpace s = Some enc"
  then have mem: "enc \<in> set whiteSpace" and pre: "take (length enc) s = enc"
    by (auto simp: leadingSpace_def find_Some_iff)
  from mem have "enc \<noteq> []" by (auto simp: whiteSpace_def)
  moreover from this pre have "s \<noteq> []" by auto
  ultimately show "(drop (length enc) s, s) \<in> measure length" by simp
qed

function TrimRightSpace :: "string \<Rightarrow> string" where
  "TrimRightSpace s =
     (case trailingSpace s of
        None \<Rightarrow> s
      | Some enc \<Rightarrow> TrimRightSpace (take (length s - length enc) s))"
  by pat_completeness auto
termination
proof (relation "measure length")
  show "wf (measure (length :: string \<Rightarrow> nat))" by simp
next
  fix s enc :: string
  assume "trailingSpace s = Some enc"
  then have mem: "enc \<in> set whiteSpace" and suf: "take (length enc) (rev s) = rev enc"
    by (auto simp: trailingSpace_def find_Some_iff)
  from mem have "enc \<noteq> []" by (auto simp: whiteSpace_def)
  moreover from this suf have "s \<noteq> []" by auto
  ultimately show "(take (length s - length enc) s, s) \<in> measure length" by simp
qed

declare TrimLeftSpace.simps [simp del] TrimRightSpace.simps [simp del]

definition strings_TrimSpace :: "string \<Rightarrow> string" where
  "strings_TrimSpace s = TrimRightSpace (TrimLeftSpace s)"

text \<open>
  \<open>strconv.Atoi\<close> on a platform with 64-bit \<open>int\<close>: an optional sign, then one or more
  decimal digits.  The digits are accumulated from the left into an unsigned 64-bit
  value, here an integer with the overflow check written out; a byte that is no digit
  is a syntax error, a value beyond 64 bits or outside the range of \<open>int\<close> is a range
  error.
\<close>

definition isDigit :: "char \<Rightarrow> bool" where
  "isDigit c = (48 \<le> (of_char c :: nat) \<and> (of_char c :: nat) \<le> 57)"

fun ParseUint_loop :: "string \<Rightarrow> int \<Rightarrow> error + int" where
  "ParseUint_loop [] n = Inr n"
| "ParseUint_loop (c # cs) n =
     (if \<not> isDigit c then Inl ErrSyntax
      else let n1 = n * 10 + (of_char c - 48)
           in if n1 > 2 ^ 64 - 1 then Inl ErrRange else ParseUint_loop cs n1)"

definition strconv_Atoi :: "string \<Rightarrow> error + int" where
  "strconv_Atoi s =
     (if s = [] then Inl (NumError ''Atoi'' s ErrSyntax)
      else
        let neg = (hd s = CHR ''-'');
            digits = (if hd s = CHR ''+'' \<or> hd s = CHR ''-'' then tl s else s)
        in if digits = [] then Inl (NumError ''Atoi'' s ErrSyntax)
           else case ParseUint_loop digits 0 of
                  Inl e \<Rightarrow> Inl (NumError ''Atoi'' s e)
                | Inr un \<Rightarrow>
                    if \<not> neg \<and> un \<ge> 2 ^ 63 then Inl (NumError ''Atoi'' s ErrRange)
                    else if neg \<and> un > 2 ^ 63 then Inl (NumError ''Atoi'' s ErrRange)
                    else Inr (if neg then - un else un))"

section \<open>Watch-set resolver\<close>

text \<open>\<open>parseInts\<close>: the loop over the pieces, with the slice \<open>ints\<close> built so far.\<close>

fun parseInts_loop :: "string list \<Rightarrow> int list \<Rightarrow> error + int list" where
  "parseInts_loop [] ints = Inr ints"
| "parseInts_loop (part # parts) ints =
     (let part = strings_TrimSpace part
      in if part = [] then parseInts_loop parts ints
         else case strconv_Atoi part of
                Inl err \<Rightarrow> Inl (Errorf_w ''parse int'' err)
              | Inr n \<Rightarrow> parseInts_loop parts (ints @ [n]))"

definition parseInts :: "string \<Rightarrow> error + int list" where
  "parseInts s = parseInts_loop (strings_SplitSeq s CHR '','') []"

text \<open>
  \<open>applyWatch\<close> writes the \<open>Watch\<close> field of the instances in place and returns an error
  value.  The model returns the error together with the instances as the call leaves
  them, so the writes made before an error are visible.
\<close>

fun applyWatch_loop :: "Instance list \<Rightarrow> int list \<Rightarrow> error option \<times> Instance list" where
  "applyWatch_loop instances [] = (None, instances)"
| "applyWatch_loop instances (index # indexes) =
     (if index < 0 \<or> index \<ge> int (length instances)
      then (Some (Errorf_d ''parse watch: index out of range'' index), instances)
      else applyWatch_loop
             (instances[nat index := (instances ! nat index)\<lparr>Watch := True\<rparr>]) indexes)"

definition applyWatch :: "Instance list \<Rightarrow> string \<Rightarrow> error option \<times> Instance list" where
  "applyWatch instances w =
     (if w = '''' \<or> w = ''none'' then (None, instances)
      else if w = ''all'' then (None, map (\<lambda>i. i\<lparr>Watch := True\<rparr>) instances)
      else case parseInts w of
             Inl err \<Rightarrow> (Some (Errorf_w ''parse watch'' err), instances)
           | Inr indexes \<Rightarrow> applyWatch_loop instances indexes)"

section \<open>Group construction\<close>

text \<open>
  \<open>exec.LookPath\<close> depends on the file system; \<open>New\<close> takes it as its first argument.
  A \<open>nil\<close> logger is \<open>None\<close>.  \<open>New_instances\<close> is the part of \<open>New\<close> that builds the
  instances from the sections of the arguments; indexing the sections with \<open>0\<close> panics
  when there is none.
\<close>

definition New_instances :: "string \<Rightarrow> Options \<Rightarrow> error + Instance list" where
  "New_instances path opts =
     (case parseArgs (args opts) of
        [] \<Rightarrow> Inl (Panic ''index out of range [0] with length 0'')
      | globalArgs # rest \<Rightarrow>
          (let instances =
                 map (\<lambda>a. \<lparr>Name = path, Args = globalArgs @ a, Watch = False,
                           Logger = logger opts\<rparr>) rest
           in Inr (if length instances = 0
                   then instances @ [\<lparr>Name = path, Args = globalArgs, Watch = False,
                                      Logger = logger opts\<rparr>]
                   else instances)))"

definition New :: "(string \<Rightarrow> error + string) \<Rightarrow> string \<Rightarrow> Option list \<Rightarrow> error + Group" where
  "New LookPath name options =
     (let opts = fold (\<lambda>option opts. option opts) options
                   \<lparr>args = [], watch = ''none'', logger = Some DiscardHandler\<rparr>
      in if logger opts = None then Inl (errors_New ''nil logger'')
         else case LookPath name of
                Inl err \<Rightarrow> Inl (Errorf_w ''look path'' err)
              | Inr path \<Rightarrow>
                  (case New_instances path opts of
                     Inl err \<Rightarrow> Inl err
                   | Inr instances \<Rightarrow>
                       (case applyWatch instances (watch opts) of
                          (Some err, _) \<Rightarrow> Inl err
                        | (None, watched) \<Rightarrow> Inr \<lparr>Instances = watched\<rparr>)))"

section \<open>Exit classifier\<close>

text \<open>
  The wait status of a Linux process: the low seven bits hold the terminating signal,
  \<open>0\<close> for a normal exit and \<open>0x7F\<close> for a stopped process; the exit code is in the
  next eight bits.
\<close>

definition Exited :: "WaitStatus \<Rightarrow> bool" where
  "Exited w = (w AND 0x7F = 0)"

definition Signaled :: "WaitStatus \<Rightarrow> bool" where
  "Signaled w = (w AND 0x7F \<noteq> 0x7F \<and> w AND 0x7F \<noteq> 0)"

definition ExitStatus :: "WaitStatus \<Rightarrow> int" where
  "ExitStatus w = (if \<not> Exited w then - 1 else uint (drop_bit 8 w AND 0xFF))"

definition Signal :: "WaitStatus \<Rightarrow> int" where
  "Signal w = (if \<not> Signaled w then - 1 else uint (w AND 0x7F))"

definition SIGKILL :: int where
  "SIGKILL = 9"

definition SIGTERM :: int where
  "SIGTERM = 15"

text \<open>
  \<open>errors.Is\<close> walks the tree of wrapped errors and compares every node with the target.
  \<open>errors.As\<close> with a target of type \<open>*exec.ExitError\<close> returns the first such node in
  the same depth-first order; the result is what its \<open>Sys()\<close> holds.
\<close>

fun errors_Is :: "error \<Rightarrow> error \<Rightarrow> bool" where
  "errors_Is err target =
     (err = target \<or>
      (case err of
         Errorf_w _ e \<Rightarrow> errors_Is e target
       | NumError _ _ e \<Rightarrow> errors_Is e target
       | joinError es \<Rightarrow> list_ex (\<lambda>e. errors_Is e target) es
       | _ \<Rightarrow> False))"

declare errors_Is.simps [simp del]

fun errors_As_ExitError :: "error \<Rightarrow> WaitStatus option option"
  and errors_As_ExitError_first :: "error list \<Rightarrow> WaitStatus option option" where
  "errors_As_ExitError (ExitError sys) = Some sys"
| "errors_As_ExitError (Errorf_w _ e) = errors_As_ExitError e"
| "errors_As_ExitError (NumError _ _ e) = errors_As_ExitError e"
| "errors_As_ExitError (joinError es) = errors_As_ExitError_first es"
| "errors_As_ExitError _ = None"
| "errors_As_ExitError_first [] = None"
| "errors_As_ExitError_first (e # es) =
     (case errors_As_ExitError e of
        Some sys \<Rightarrow> Some sys
      | None \<Rightarrow> errors_As_ExitError_first es)"

definition checkErr :: "error option \<Rightarrow> error option" where
  "checkErr err =
     (case err of
        None \<Rightarrow> None
      | Some e \<Rightarrow>
          if errors_Is e Canceled then None
          else case errors_As_ExitError e of
                 None \<Rightarrow> err
               | Some sys \<Rightarrow>
                   (case sys of
                      None \<Rightarrow> err
                    | Some waitStatus \<Rightarrow>
                        if \<not> Signaled waitStatus \<or> Signal waitStatus \<noteq> SIGTERM then err
                        else None))"

section \<open>Instance life cycle\<close>

text \<open>Durations and instants are in nanoseconds, as \<open>time.Duration\<close> is.\<close>

definition cmdRestartDelay :: nat where
  "cmdRestartDelay = 1000000000"


text \<open>
  A context is \<open>None\<close> while it is not done.  Once done it holds the instant from which
  its \<open>Done\<close> channel is closed, what \<open>Err()\<close> returns and its cause.  \<open>Instance.Run\<close>
  receives the context as it will be: the instant at which it becomes done, if ever.
\<close>

record CtxDone =
  doneAt :: nat
  Err :: error
  Cause :: error

type_synonym Context = "CtxDone option"

text \<open>
  \<open>select\<close> with the two cases \<open>ctx.Done()\<close> and \<open>time.After(d)\<close>, entered at \<open>now\<close>:
  the case that becomes ready first proceeds, at that instant.  When both become ready
  at the same instant the run-time system chooses; \<open>tie\<close> is its choice.
\<close>

datatype selected = ctx_Done CtxDone | time_After

definition select :: "Context \<Rightarrow> nat \<Rightarrow> nat \<Rightarrow> bool \<Rightarrow> selected \<times> nat" where
  "select ctx now d tie =
     (case ctx of
        None \<Rightarrow> (time_After, now + d)
      | Some c \<Rightarrow>
          if doneAt c < now + d then (ctx_Done c, max now (doneAt c))
          else if doneAt c = now + d \<and> tie then (ctx_Done c, now + d)
          else (time_After, now + d))"

text \<open>
  What the operating system does with the \<open>k\<close>-th command an instance creates: whether
  \<open>Start\<close> fails, the process id, what \<open>Wait\<close> returns and after how long.
\<close>

record Child =
  startErr :: "error option"
  Pid :: nat
  waitErr :: "error option"
  waitTime :: nat
  tie :: bool

datatype logmsg = started nat | exited "error option" | not_restarting error | restarting

text \<open>
  The loop of \<open>Instance.Run\<close>.  \<open>k\<close> counts the commands created so far, \<open>now\<close> is the
  clock and \<open>lg\<close> the messages given to the logger (to the discarding logger when the
  instance has none).  The result is the error returned, the instant of
  the return and the log; a watched instance under a context that is never done does not
  return, which is \<open>None\<close>.
\<close>

partial_function (option) Run_loop ::
  "Instance \<Rightarrow> Context \<Rightarrow> (nat \<Rightarrow> Child) \<Rightarrow> nat \<Rightarrow> nat \<Rightarrow> logmsg list
     \<Rightarrow> (error option \<times> nat \<times> logmsg list) option" where
  "Run_loop i ctx world k now lg =
     (case startErr (world k) of
        Some err \<Rightarrow> Some (Some (Errorf_w ''start command'' err), now, lg)
      | None \<Rightarrow>
          (let lg = lg @ [started (Pid (world k))];
               err = waitErr (world k);
               now = now + waitTime (world k);
               lg = lg @ [exited err]
           in if \<not> Watch i then Some (err, now, lg)
              else (case select ctx now cmdRestartDelay (tie (world k)) of
                      (ctx_Done c, t) \<Rightarrow>
                        Some (Some (Err c), t, lg @ [not_restarting (Err c)])
                    | (time_After, t) \<Rightarrow>
                        Run_loop i ctx world (k + 1) t (lg @ [restarting]))))"

declare Run_loop.simps [code]

definition Instance_Run ::
  "Instance \<Rightarrow> Context \<Rightarrow> (nat \<Rightarrow> Child) \<Rightarrow> nat
     \<Rightarrow> (error option \<times> nat \<times> logmsg list) option" where
  "Instance_Run i ctx world now = Run_loop i ctx world 0 now []"

subsection \<open>The command of an instance\<close>






subsection \<open>Start and Wait of a command\<close>











section \<open>Group execution\<close>

text \<open>
  \<open>errors.Join\<close> discards the \<open>nil\<close> values and is \<open>nil\<close> when nothing is left.
\<close>

definition errors_Join :: "error option list \<Rightarrow> error option" where
  "errors_Join errs =
     (let es = List.map_filter (\<lambda>e. e) errs
      in if length es = 0 then None else Some (joinError es))"

text \<open>
  The cancel function of \<open>context.WithCancelCause\<close>, called at the instant \<open>t\<close>: it has
  no effect on a context that is done already, and a \<open>nil\<close> cause is recorded as
  \<open>Canceled\<close>.
\<close>

definition cancel :: "error option \<Rightarrow> nat \<Rightarrow> Context \<Rightarrow> Context" where
  "cancel cause t ctx =
     (if (case ctx of None \<Rightarrow> False | Some c \<Rightarrow> doneAt c \<le> t) then ctx
      else Some \<lparr>doneAt = t, Err = Canceled,
                 Cause = (case cause of None \<Rightarrow> Canceled | Some e \<Rightarrow> e)\<rparr>)"

text \<open>
  The state shared by the workers of \<open>Group.Run\<close>: the result slots, the counter of the
  wait group and the derived context.  \<open>worker\<close> is what the goroutine of instance \<open>idx\<close>
  does once \<open>instance.Run\<close> has returned \<open>err\<close> at the instant \<open>t\<close>.
\<close>

record RunState =
  errs :: "error option list"
  wg :: nat
  ctx :: Context

definition worker :: "Group \<Rightarrow> nat \<Rightarrow> error option \<Rightarrow> nat \<Rightarrow> RunState \<Rightarrow> RunState" where
  "worker g idx err t s =
     (let s = s\<lparr>errs := (errs s)[idx := checkErr err]\<rparr>;
          s = (if errs s ! idx \<noteq> None \<and> \<not> Watch (Instances g ! idx)
               then s\<lparr>ctx := cancel (errs s ! idx) t (ctx s)\<rparr>
               else s)
      in s\<lparr>wg := wg s - 1\<rparr>)"

text \<open>
  \<open>Group.Run\<close> after the workers listed in \<open>returned\<close> have finished, in that order: each
  entry is the index of an instance, what its \<open>Run\<close> returned and when.  \<open>wg.Wait()\<close>
  returns when the counter is zero; until then \<open>Group.Run\<close> has no result, which is
  \<open>None\<close>.
\<close>

definition Group_Run_state :: "Group \<Rightarrow> Context \<Rightarrow> (nat \<times> error option \<times> nat) list \<Rightarrow> RunState" where
  "Group_Run_state g parent returned =
     fold (\<lambda>(idx, err, t). worker g idx err t) returned
       \<lparr>errs = replicate (length (Instances g)) None, wg = length (Instances g),
        ctx = parent\<rparr>"

definition Group_Run :: "Group \<Rightarrow> Context \<Rightarrow> (nat \<times> error option \<times> nat) list \<Rightarrow> error option option" where
  "Group_Run g parent returned =
     (let s = Group_Run_state g parent returned
      in if wg s = 0 then Some (errors_Join (errs s)) else None)"

section \<open>The earlier version of construction\<close>

text \<open>
  The sources also hold the earlier version of the package (\<open>package cmdgroup\<close>).  There
  \<open>parseArgs\<close> returns one instance per section, the first section included, \<open>parseInts\<close>
  checks the range itself, and \<open>New\<close> sets the name, the logger and the watch flag of each
  instance.  The loop of \<open>parseArgs\<close> runs while \<open>end < len(args)\<close>; \<open>e\<close> is its \<open>end\<close>.
\<close>

function parseArgs_cmdgroup_loop ::
  "string list \<Rightarrow> string list list \<Rightarrow> nat \<Rightarrow> nat \<Rightarrow> string list list" where
  "parseArgs_cmdgroup_loop a instances start e =
     (if e < length a
      then (if a ! e = ''--''
            then parseArgs_cmdgroup_loop a
                   (instances @ [take (e - start) (drop start a)]) (e + 1) (e + 1)
            else parseArgs_cmdgroup_loop a instances start (e + 1))
      else instances @ [take (e - start) (drop start a)])"
  by pat_completeness auto
termination
  by (relation "measure (\<lambda>(a, instances, start, e). length a - e)") auto

declare parseArgs_cmdgroup_loop.simps [simp del]

definition parseArgs_cmdgroup :: "string list \<Rightarrow> Instance list" where
  "parseArgs_cmdgroup a =
     map (\<lambda>section. \<lparr>Name = [], Args = section, Watch = False, Logger = None\<rparr>)
       (parseArgs_cmdgroup_loop a [] 0 0)"

fun parseInts_cmdgroup_loop :: "string list \<Rightarrow> int \<Rightarrow> int list \<Rightarrow> error + int list" where
  "parseInts_cmdgroup_loop [] maxValue ints = Inr ints"
| "parseInts_cmdgroup_loop (indexStr # rest) maxValue ints =
     (let indexStr = strings_TrimSpace indexStr
      in if indexStr = [] then parseInts_cmdgroup_loop rest maxValue ints
         else case strconv_Atoi indexStr of
                Inl err \<Rightarrow> Inl (Errorf_w ''parse int'' err)
              | Inr index \<Rightarrow>
                  if index < 0 \<or> index \<ge> maxValue
                  then Inl (Errorf_d ''index out of range'' index)
                  else parseInts_cmdgroup_loop rest maxValue (ints @ [index]))"

definition parseInts_cmdgroup :: "string \<Rightarrow> int \<Rightarrow> error + int list" where
  "parseInts_cmdgroup w maxValue =
     (if w = '''' \<or> w = ''none'' then Inr []
      else if w = ''all'' then Inr (map int [0..<nat maxValue])
      else parseInts_cmdgroup_loop (strings_SplitSeq w CHR '','') maxValue [])"

definition New_cmdgroup ::
  "(string \<Rightarrow> error + string) \<Rightarrow> string \<Rightarrow> Option list \<Rightarrow> error + Group" where
  "New_cmdgroup LookPath name options =
     (let opts = fold (\<lambda>option opts. option opts) options
                   \<lparr>args = [], watch = ''none'', logger = Some DiscardHandler\<rparr>
      in case LookPath name of
           Inl err \<Rightarrow> Inl (Errorf_w ''look path'' err)
         | Inr path \<Rightarrow>
             (let instances = parseArgs_cmdgroup (args opts)
              in case parseInts_cmdgroup (watch opts) (int (length instances)) of
                   Inl err \<Rightarrow> Inl (Errorf_w ''parse watch'' err)
                 | Inr watchIndexes \<Rightarrow>
                     Inr \<lparr>Instances =
                            map (\<lambda>(index, instance).
                                   instance\<lparr>Name := path, Logger := logger opts,
                                            Watch := (int index \<in> set watchIndexes)\<rparr>)
                              (enumerate 0 instances)\<rparr>))"

section \<open>Observations\<close>

text \<open>The argument sequences of the instances of a constructed group.\<close>

definition instanceArgs :: "error + Group \<Rightarrow> string list list option" where
  "instanceArgs r = (case r of Inl _ \<Rightarrow> None | Inr g \<Rightarrow> Some (map Args (Instances g)))"

text \<open>The indexes of the watched instances.\<close>

definition watched :: "Instance list \<Rightarrow> nat set" where
  "watched instances = {j. j < length instances \<and> Watch (instances ! j)}"

text \<open>What \<open>Run\<close> of instance \<open>i\<close> returned, \<open>nil\<close> when it has not returned.\<close>

definition returnedErr :: "(nat \<times> error option \<times> nat) list \<Rightarrow> nat \<Rightarrow> error option" where
  "returnedErr returned i = (case map_of returned i of None \<Rightarrow> None | Some (err, t) \<Rightarrow> err)"

text \<open>
  \<open>strings.Join\<close>, to write a watch specification as its pieces joined by commas.
\<close>

fun strings_Join :: "string list \<Rightarrow> string \<Rightarrow> string" where
  "strings_Join [] sep = []"
| "strings_Join [e] sep = e"
| "strings_Join (e # es) sep = e @ sep @ strings_Join es sep"

section \<open>Scenarios of the tests\<close>

text \<open>The tests resolve \<open>echo\<close> on the search path; this is such a \<open>LookPath\<close>.\<close>

definition testLookPath :: "string \<Rightarrow> error + string" where
  "testLookPath name =
     (if name = [] then Inl (errors_New ''executable file not found in $PATH'')
      else Inr (''/usr/bin/'' @ name))"

text \<open>
  The test \<open>start error\<close> runs \<open>/nonexistent/binary\<close>: every \<open>Start\<close> fails.  The test
  \<open>watched restarts\<close> runs \<open>true\<close>, which exits at once with success (here after two
  milliseconds), under a context with a deadline of 1.5 seconds.
\<close>

definition missingBinary :: "nat \<Rightarrow> Child" where
  "missingBinary k =
     \<lparr>startErr = Some (errors_New ''no such file or directory''), Pid = 0,
      waitErr = None, waitTime = 0, tie = False\<rparr>"

definition trueCommand :: "nat \<Rightarrow> Child" where
  "trueCommand k =
     \<lparr>startErr = None, Pid = 100 + k, waitErr = None, waitTime = 2000000, tie = False\<rparr>"

definition deadline1500ms :: Context where
  "deadline1500ms = Some \<lparr>doneAt = 1500000000, Err = DeadlineExceeded, Cause = DeadlineExceeded\<rparr>"




text \<open>Three unwatched instances, for the order of the joined errors.\<close>

definition threeInstances :: Group where
  "threeInstances =
     \<lparr>Instances =
        [\<lparr>Name = ''/usr/bin/sh'', Args = [''-c'', ''exit 1''], Watch = False,
          Logger = Some DiscardHandler\<rparr>,
         \<lparr>Name = ''/usr/bin/sh'', Args = [''-c'', ''exit 0''], Watch = False,
          Logger = Some DiscardHandler\<rparr>,
         \<lparr>Name = ''/usr/bin/sh'', Args = [''-c'', ''exit 2''], Watch = False,
          Logger = Some DiscardHandler\<rparr>]\<rparr>"

section \<open>Properties of the argument partitioner and of construction\<close>

lemma slicesSplitSeq_loop_no_sep:
  "sep \<notin> set rest \<Longrightarrow> slicesSplitSeq_loop s sep start i rest = [drop start s]"
  by (induction rest arbitrary: i) auto

lemma slicesSplitSeq_no_sep: "sep \<notin> set s \<Longrightarrow> slicesSplitSeq s sep = [s]"
  by (simp add: slicesSplitSeq_def slicesSplitSeq_loop_no_sep)

lemma slicesSplitSeq_loop_nonempty: "slicesSplitSeq_loop s sep start i rest \<noteq> []"
  by (induction rest arbitrary: start i) auto

lemma parseArgs_nonempty: "parseArgs a \<noteq> []"
  by (simp add: parseArgs_def slicesSplitSeq_def slicesSplitSeq_loop_nonempty)

lemma map_update_same: "f y = f (xs ! i) \<Longrightarrow> map f (xs[i := y]) = map f xs"
  by (induction xs arbitrary: i) (auto split: nat.splits)

lemma applyWatch_loop_Args:
  "map Args (snd (applyWatch_loop instances indexes)) = map Args instances"
  by (induction instances indexes rule: applyWatch_loop.induct) (auto simp: map_update_same)

lemma applyWatch_Args: "map Args (snd (applyWatch instances w)) = map Args instances"
  by (auto simp: applyWatch_def applyWatch_loop_Args comp_def split: sum.splits)

text \<open>
  C1 (as amended).  The command \<open>echo\<close> with the arguments \<open>a -flag -- b\<close> and the watch
  specification \<open>none\<close>: construction succeeds and the group has exactly one instance,
  whose arguments are the global prefix \<open>a -flag\<close> followed by the section \<open>b\<close>.
\<close>

theorem New_echo_example:
  assumes "LookPath ''echo'' = Inr path"
  shows "New LookPath ''echo'' [WithArgs [''a'', ''-flag'', ''--'', ''b''], WithWatch ''none'']
     = Inr \<lparr>Instances = [\<lparr>Name = path, Args = [''a'', ''-flag'', ''b''],
                            Watch = False, Logger = Some DiscardHandler\<rparr>]\<rparr>"
  using assms
  by (simp add: New_def New_instances_def WithArgs_def WithWatch_def parseArgs_def
      slicesSplitSeq_def applyWatch_def)

theorem New_echo_example_witness:
  "testLookPath ''echo'' = Inr ''/usr/bin/echo'' \<and>
   New testLookPath ''echo'' [WithArgs [''a'', ''-flag'', ''--'', ''b''], WithWatch ''none'']
     = Inr \<lparr>Instances = [\<lparr>Name = ''/usr/bin/echo'', Args = [''a'', ''-flag'', ''b''],
                            Watch = False, Logger = Some DiscardHandler\<rparr>]\<rparr>"
proof -
  have h: "testLookPath ''echo'' = Inr ''/usr/bin/echo''"
    by (simp add: testLookPath_def)
  show ?thesis using h New_echo_example [of testLookPath "''/usr/bin/echo''"] by simp
qed

lemma New_cmdgroup_echo:
  "instanceArgs (New_cmdgroup testLookPath ''echo''
       [WithArgs [''a'', ''-flag'', ''--'', ''b''], WithWatch ''none''])
     = Some [[''a'', ''-flag''], [''b'']]"
  by code_simp

text \<open>
  The scenario with two instances does not hold: the group constructed from
  \<open>a -flag -- b\<close> does not consist of the two instances \<open>a -flag\<close> and \<open>a -flag b\<close>.  It
  has the one instance \<open>a -flag b\<close>; in the earlier version of the package it has the
  two instances \<open>a -flag\<close> and \<open>b\<close>.
\<close>

theorem New_echo_two_instances_counterexample:
  "instanceArgs (New testLookPath ''echo''
       [WithArgs [''a'', ''-flag'', ''--'', ''b''], WithWatch ''none''])
     \<noteq> Some [[''a'', ''-flag''], [''a'', ''-flag'', ''b'']] \<and>
   instanceArgs (New_cmdgroup testLookPath ''echo''
       [WithArgs [''a'', ''-flag'', ''--'', ''b''], WithWatch ''none''])
     \<noteq> Some [[''a'', ''-flag''], [''a'', ''-flag'', ''b'']]"
proof
  show "instanceArgs (New testLookPath ''echo''
       [WithArgs [''a'', ''-flag'', ''--'', ''b''], WithWatch ''none''])
     \<noteq> Some [[''a'', ''-flag''], [''a'', ''-flag'', ''b'']]"
    by (simp add: instanceArgs_def New_def New_instances_def WithArgs_def WithWatch_def
        parseArgs_def slicesSplitSeq_def applyWatch_def testLookPath_def)
  show "instanceArgs (New_cmdgroup testLookPath ''echo''
       [WithArgs [''a'', ''-flag'', ''--'', ''b''], WithWatch ''none''])
     \<noteq> Some [[''a'', ''-flag''], [''a'', ''-flag'', ''b'']]"
    unfolding New_cmdgroup_echo by simp
qed

text \<open>
  C5.  When the argument list holds no \<open>--\<close> (the empty list included) and the other
  inputs of the constructor are valid (the command is found, the logger is not \<open>nil\<close>
  and the watch specification resolves for one instance), construction succeeds with
  exactly one instance, and its arguments are the whole argument list.
\<close>

theorem New_no_delimiter:
  assumes opts: "fold (\<lambda>option opts. option opts) options
             \<lparr>args = [], watch = ''none'', logger = Some DiscardHandler\<rparr> = opts"
    and nodelim: "''--'' \<notin> set (args opts)"
    and lp: "LookPath name = Inr path"
    and lg: "logger opts \<noteq> None"
    and w: "fst (applyWatch [\<lparr>Name = path, Args = args opts, Watch = False,
                              Logger = logger opts\<rparr>] (watch opts)) = None"
  shows "\<exists>g. New LookPath name options = Inr g \<and> length (Instances g) = 1 \<and>
             map Args (Instances g) = [args opts]"
proof -
  let ?i = "\<lparr>Name = path, Args = args opts, Watch = False, Logger = logger opts\<rparr>"
  obtain result where aw: "applyWatch [?i] (watch opts) = (None, result)"
    using w by (cases "applyWatch [?i] (watch opts)") auto
  have "map Args result = [args opts]"
    using applyWatch_Args [of "[?i]" "watch opts"] aw by simp
  moreover from this have "length result = 1"
    by (metis length_map length_Cons list.size(3) One_nat_def)
  moreover have "New LookPath name options = Inr \<lparr>Instances = result\<rparr>"
    using opts lp lg aw nodelim
    by (simp add: New_def New_instances_def parseArgs_def slicesSplitSeq_no_sep)
  ultimately show ?thesis by simp
qed

text \<open>The first case of the integration test: \<open>echo hello world\<close>.\<close>

theorem New_no_delimiter_witness:
  "''--'' \<notin> set [''hello'', ''world''] \<and>
   (\<exists>g. New testLookPath ''echo'' [WithArgs [''hello'', ''world'']] = Inr g \<and>
        length (Instances g) = 1 \<and> map Args (Instances g) = [[''hello'', ''world'']])"
  using New_no_delimiter [of "[WithArgs [''hello'', ''world'']]"
       "\<lparr>args = [''hello'', ''world''], watch = ''none'', logger = Some DiscardHandler\<rparr>"
       testLookPath "''echo''" "''/usr/bin/echo''"]
  by (simp add: WithArgs_def testLookPath_def applyWatch_def)


section \<open>Properties of the exit classifier\<close>

lemma Exited_not_Signaled: "Exited ws \<Longrightarrow> \<not> Signaled ws"
  by (simp add: Exited_def Signaled_def)

text \<open>
  C3.  \<open>checkErr\<close> maps \<open>nil\<close> to \<open>nil\<close>, every error that \<open>errors.Is\<close> finds to be
  \<open>context.Canceled\<close> to \<open>nil\<close>, and a process-exit error whose wait status shows
  termination by SIGTERM to \<open>nil\<close> (also when \<open>errors.As\<close> finds it inside a wrapped
  error).  Every other error is returned unchanged: an error that is no exit error, an
  exit with an exit code, and an exit caused by another signal.
\<close>

theorem checkErr_classification:
  "checkErr None = None \<and>
   (errors_Is e Canceled \<longrightarrow> checkErr (Some e) = None) \<and>
   (Signaled ws \<and> Signal ws = SIGTERM \<longrightarrow> checkErr (Some (ExitError (Some ws))) = None) \<and>
   (errors_As_ExitError e = Some (Some ws) \<and> Signaled ws \<and> Signal ws = SIGTERM
      \<longrightarrow> checkErr (Some e) = None) \<and>
   (\<not> errors_Is e Canceled \<and>
    \<not> (\<exists>st. errors_As_ExitError e = Some (Some st) \<and> Signaled st \<and> Signal st = SIGTERM)
      \<longrightarrow> checkErr (Some e) = Some e) \<and>
   checkErr (Some (errors_New msg)) = Some (errors_New msg) \<and>
   (Exited ws \<longrightarrow> checkErr (Some (ExitError (Some ws))) = Some (ExitError (Some ws))) \<and>
   (Signaled ws \<and> Signal ws \<noteq> SIGTERM
      \<longrightarrow> checkErr (Some (ExitError (Some ws))) = Some (ExitError (Some ws)))"
  by (auto simp: checkErr_def errors_Is.simps Exited_not_Signaled split: option.splits)

text \<open>
  The cases of the test of \<open>checkErr\<close>: a wrapped \<open>context.Canceled\<close> and a process
  killed by SIGTERM (wait status 15) are filtered; a process killed by SIGKILL (wait
  status 9) and the exit code 1 of \<open>false\<close> (wait status 256) pass.
\<close>

theorem checkErr_classification_witness:
  "errors_Is (Errorf_w ''start command'' Canceled) Canceled \<and>
   checkErr (Some (Errorf_w ''start command'' Canceled)) = None \<and>
   Signaled 15 \<and> Signal 15 = SIGTERM \<and> checkErr (Some (ExitError (Some 15))) = None \<and>
   Signaled 9 \<and> Signal 9 = SIGKILL \<and> Signal 9 \<noteq> SIGTERM \<and>
   checkErr (Some (ExitError (Some 9))) = Some (ExitError (Some 9)) \<and>
   Exited 256 \<and> ExitStatus 256 = 1 \<and>
   checkErr (Some (ExitError (Some 256))) = Some (ExitError (Some 256))"
  using checkErr_classification [of "Errorf_w ''start command'' Canceled" 15]
    checkErr_classification [of "ExitError (Some 9)" 9]
    checkErr_classification [of "ExitError (Some 256)" 256]
  by (simp add: errors_Is.simps Signaled_def Signal_def SIGTERM_def SIGKILL_def Exited_def
      ExitStatus_def)

section \<open>Properties of the instance life cycle\<close>

text \<open>
  C4.  When \<open>Start\<close> fails, in any iteration of the loop and so also in the first one,
  \<open>Instance.Run\<close> returns at once the start error wrapped as \<open>start command\<close>, whatever
  the watch flag is: the clock has not advanced and nothing has been logged, so no
  restart follows.
\<close>

theorem Run_start_failure:
  "(startErr (world k) = Some err \<longrightarrow>
      Run_loop i cx world k now lg = Some (Some (Errorf_w ''start command'' err), now, lg)) \<and>
   (startErr (world 0) = Some err \<longrightarrow>
      Instance_Run i cx world now = Some (Some (Errorf_w ''start command'' err), now, []))"
  by (simp add: Instance_Run_def Run_loop.simps)

theorem Run_start_failure_witness:
  "startErr (missingBinary 0) = Some (errors_New ''no such file or directory'') \<and>
   Instance_Run \<lparr>Name = ''/nonexistent/binary'', Args = [], Watch = True, Logger = None\<rparr>
       None missingBinary 0
     = Some (Some (Errorf_w ''start command'' (errors_New ''no such file or directory'')), 0, [])"
  using Run_start_failure [of missingBinary 0 "errors_New ''no such file or directory''"
      "\<lparr>Name = ''/nonexistent/binary'', Args = [], Watch = True, Logger = None\<rparr>" None 0 "[]"]
  by (simp add: missingBinary_def)

text \<open>The two outcomes of the \<open>select\<close> of a watched instance whose child has started.\<close>

lemma Run_loop_not_restarting:
  assumes "Watch i" and "startErr (world k) = None"
    and "doneAt c < now + waitTime (world k) + cmdRestartDelay"
  shows "Run_loop i (Some c) world k now lg =
         Some (Some (Err c), max (now + waitTime (world k)) (doneAt c),
               lg @ [started (Pid (world k)), exited (waitErr (world k)),
                     not_restarting (Err c)])"
  using assms by (subst Run_loop.simps) (simp add: select_def)

lemma Run_loop_restarting:
  assumes "Watch i" and "startErr (world k) = None"
    and "cx = None \<or> (cx = Some c \<and> now + waitTime (world k) + cmdRestartDelay < doneAt c)"
  shows "Run_loop i cx world k now lg =
         Run_loop i cx world (k + 1) (now + waitTime (world k) + cmdRestartDelay)
           (lg @ [started (Pid (world k)), exited (waitErr (world k)), restarting])"
  using assms by (subst Run_loop.simps) (auto simp: select_def)

text \<open>
  C8.  A watched instance whose child has started: whatever \<open>Wait\<close> returns, the loop
  waits for \<open>cmdRestartDelay\<close>, which is one second.  When the context becomes done before
  the delay has elapsed, \<open>Run\<close> returns the error of the context and logs that it does not
  restart; when the context is not done by the end of the delay, the loop goes on, one
  second after the exit, with the next command.
\<close>

theorem Run_watch_restart:
  assumes "Watch i" and "startErr (world k) = None"
  shows "cmdRestartDelay = 1000000000 \<and>
    (cx = Some c \<and> doneAt c < now + waitTime (world k) + cmdRestartDelay \<longrightarrow>
       Run_loop i cx world k now lg =
         Some (Some (Err c), max (now + waitTime (world k)) (doneAt c),
               lg @ [started (Pid (world k)), exited (waitErr (world k)),
                     not_restarting (Err c)])) \<and>
    (cx = None \<or> (cx = Some c \<and> now + waitTime (world k) + cmdRestartDelay < doneAt c) \<longrightarrow>
       Run_loop i cx world k now lg =
         Run_loop i cx world (k + 1) (now + waitTime (world k) + cmdRestartDelay)
           (lg @ [started (Pid (world k)), exited (waitErr (world k)), restarting]))"
proof (intro conjI impI)
  show "cmdRestartDelay = 1000000000"
    by (simp add: cmdRestartDelay_def)
next
  assume "cx = Some c \<and> doneAt c < now + waitTime (world k) + cmdRestartDelay"
  with assms Run_loop_not_restarting [of i world k c now lg]
  show "Run_loop i cx world k now lg =
         Some (Some (Err c), max (now + waitTime (world k)) (doneAt c),
               lg @ [started (Pid (world k)), exited (waitErr (world k)),
                     not_restarting (Err c)])"
    by blast
next
  assume "cx = None \<or> (cx = Some c \<and> now + waitTime (world k) + cmdRestartDelay < doneAt c)"
  with assms Run_loop_restarting [of i world k cx c now lg]
  show "Run_loop i cx world k now lg =
         Run_loop i cx world (k + 1) (now + waitTime (world k) + cmdRestartDelay)
           (lg @ [started (Pid (world k)), exited (waitErr (world k)), restarting])"
    by blast
qed

text \<open>
  The test \<open>watched restarts\<close>: the first child exits at 2 ms and is restarted at
  1.002 s; the second exits at 1.004 s, the deadline passes at 1.5 s and \<open>Run\<close> returns
  \<open>DeadlineExceeded\<close>.
\<close>

theorem Run_watch_restart_witness:
  "Instance_Run \<lparr>Name = ''/usr/bin/true'', Args = [], Watch = True, Logger = None\<rparr>
       deadline1500ms trueCommand 0
     = Some (Some DeadlineExceeded, 1500000000,
             [started 100, exited None, restarting,
              started 101, exited None, not_restarting DeadlineExceeded])"
proof -
  let ?i = "\<lparr>Name = ''/usr/bin/true'', Args = [], Watch = True, Logger = None\<rparr>"
  let ?c = "\<lparr>doneAt = 1500000000, Err = DeadlineExceeded, Cause = DeadlineExceeded\<rparr>"
  have first: "Run_loop ?i (Some ?c) trueCommand 0 0 [] =
      Run_loop ?i (Some ?c) trueCommand 1 1002000000 [started 100, exited None, restarting]"
    using Run_watch_restart [of ?i trueCommand 0 "Some ?c" ?c 0 "[]"]
    by (simp add: trueCommand_def cmdRestartDelay_def)
  have second:
    "Run_loop ?i (Some ?c) trueCommand 1 1002000000 [started 100, exited None, restarting]
      = Some (Some DeadlineExceeded, 1500000000,
             [started 100, exited None, restarting,
              started 101, exited None, not_restarting DeadlineExceeded])"
    using Run_watch_restart [of ?i trueCommand 1 "Some ?c" ?c 1002000000
        "[started 100, exited None, restarting]"]
    by (simp add: trueCommand_def cmdRestartDelay_def)
  show ?thesis
    unfolding Instance_Run_def deadline1500ms_def first second ..
qed


section \<open>Properties of the group execution\<close>

lemma checkErr_None: "checkErr None = None"
  by (simp add: checkErr_def)

lemma worker_errs: "errs (worker g idx err t s) = (errs s)[idx := checkErr err]"
  by (simp add: worker_def Let_def)

lemma worker_wg: "wg (worker g idx err t s) = wg s - 1"
  by (simp add: worker_def Let_def)

lemma fold_worker_wg:
  "wg (fold (\<lambda>(idx, err, t). worker g idx err t) returned s) = wg s - length returned"
  by (induction returned arbitrary: s) (auto simp: worker_wg)

lemma fold_worker_length:
  "length (errs (fold (\<lambda>(idx, err, t). worker g idx err t) returned s)) = length (errs s)"
  by (induction returned arbitrary: s) (auto simp: worker_errs)

text \<open>Each slot holds the classified error of its own instance, whatever the order.\<close>

lemma fold_worker_nth:
  "distinct (map fst returned) \<Longrightarrow> i < length (errs s) \<Longrightarrow>
   errs (fold (\<lambda>(idx, err, t). worker g idx err t) returned s) ! i =
     (case map_of returned i of None \<Rightarrow> errs s ! i | Some (err, t) \<Rightarrow> checkErr err)"
proof (induction returned arbitrary: s)
  case Nil
  then show ?case by simp
next
  case (Cons x returned)
  obtain idx err t where x: "x = (idx, err, t)" by (cases x)
  have notin: "idx \<notin> fst ` set returned" and d: "distinct (map fst returned)"
    using Cons.prems(1) x by auto
  have len: "i < length (errs (worker g idx err t s))"
    using Cons.prems(2) by (simp add: worker_errs)
  have "errs (fold (\<lambda>(idx, err, t). worker g idx err t) (x # returned) s) ! i =
        (case map_of returned i of None \<Rightarrow> errs (worker g idx err t s) ! i
         | Some (err, t) \<Rightarrow> checkErr err)"
    using Cons.IH [OF d len] x by simp
  also have "\<dots> = (case map_of (x # returned) i of None \<Rightarrow> errs s ! i
                     | Some (err, t) \<Rightarrow> checkErr err)"
  proof (cases "i = idx")
    case True
    with notin have "map_of returned i = None"
      by (simp add: map_of_eq_None_iff)
    with True x Cons.prems(2) show ?thesis by (simp add: worker_errs)
  next
    case False
    then have "errs (worker g idx err t s) ! i = errs s ! i"
      by (simp add: worker_errs)
    with False x show ?thesis by (simp split: option.splits)
  qed
  finally show ?case .
qed

lemma Group_Run_state_errs:
  assumes "distinct (map fst returned)"
  shows "errs (Group_Run_state g parent returned) =
         map (\<lambda>i. checkErr (returnedErr returned i)) [0..<length (Instances g)]"
proof (rule nth_equalityI)
  show "length (errs (Group_Run_state g parent returned)) =
        length (map (\<lambda>i. checkErr (returnedErr returned i)) [0..<length (Instances g)])"
    by (simp add: Group_Run_state_def fold_worker_length)
next
  fix i assume "i < length (errs (Group_Run_state g parent returned))"
  then have i: "i < length (Instances g)"
    by (simp add: Group_Run_state_def fold_worker_length)
  then show "errs (Group_Run_state g parent returned) ! i =
        map (\<lambda>i. checkErr (returnedErr returned i)) [0..<length (Instances g)] ! i"
    using assms
    by (simp add: Group_Run_state_def fold_worker_nth returnedErr_def checkErr_None
        split: option.splits)
qed

text \<open>The counter of the wait group is zero exactly when every worker has finished.\<close>

lemma all_returned_iff:
  assumes "distinct (map fst returned)" and "fst ` set returned \<subseteq> {..<n}"
  shows "n - length returned = 0 \<longleftrightarrow> fst ` set returned = {..<n}"
proof -
  have card: "card (fst ` set returned) = length returned"
    using assms(1) by (metis distinct_card length_map set_map)
  have le: "length returned \<le> n"
    using card card_mono [OF _ assms(2)] by simp
  show ?thesis
  proof
    assume "n - length returned = 0"
    with le have "card (fst ` set returned) = card {..<n}" using card by simp
    with assms(2) show "fst ` set returned = {..<n}"
      by (simp add: card_subset_eq)
  next
    assume "fst ` set returned = {..<n}"
    with card show "n - length returned = 0" by simp
  qed
qed

lemma errors_Join_None_iff: "errors_Join es = None \<longleftrightarrow> (\<forall>e\<in>set es. e = None)"
  by (induction es)
    (auto simp: errors_Join_def List.map_filter_simps Let_def split: option.splits)

lemma errors_Join_Some:
  "errors_Join es = Some e \<Longrightarrow> e = joinError (List.map_filter (\<lambda>e. e) es)"
  by (simp add: errors_Join_def Let_def split: if_splits)

lemma Group_Run_eq:
  assumes "distinct (map fst returned)" and "fst ` set returned \<subseteq> {..<length (Instances g)}"
  shows "Group_Run g parent returned =
      (if fst ` set returned = {..<length (Instances g)}
       then Some (errors_Join (map (\<lambda>i. checkErr (returnedErr returned i))
                                   [0..<length (Instances g)]))
       else None)"
proof -
  let ?s = "Group_Run_state g parent returned"
  have "wg ?s = length (Instances g) - length returned"
    by (simp add: Group_Run_state_def fold_worker_wg)
  then have "wg ?s = 0 \<longleftrightarrow> fst ` set returned = {..<length (Instances g)}"
    using all_returned_iff [OF assms] by simp
  then show ?thesis
    using Group_Run_state_errs [OF assms(1)] by (simp add: Group_Run_def Let_def)
qed

lemma Group_Run_order:
  assumes "distinct (map fst returned)" and "distinct (map fst returned')"
    and "set returned' = set returned"
  shows "Group_Run g parent returned' = Group_Run g parent returned"
proof -
  have m: "map_of returned' = map_of returned"
    using assms by (simp add: map_of_inject_set)
  have l: "length returned' = length returned"
    using assms by (metis distinct_card distinct_map)
  have "wg (Group_Run_state g parent returned') = wg (Group_Run_state g parent returned)"
    by (simp add: Group_Run_state_def fold_worker_wg l)
  moreover have
    "errs (Group_Run_state g parent returned') = errs (Group_Run_state g parent returned)"
    using assms(1,2) m by (simp add: Group_Run_state_errs returnedErr_def)
  ultimately show ?thesis by (simp add: Group_Run_def Let_def)
qed

text \<open>
  C7.  Let every worker finish at most once.  \<open>Group.Run\<close> has a result exactly when all
  workers have finished.  The result joins the classified errors of the instances in
  the order of their indexes, whatever the order in which the workers finished: it is
  \<open>nil\<close> exactly when every classified error is \<open>nil\<close>, and otherwise the joined error
  lists the classified errors that are not \<open>nil\<close> by increasing index.
\<close>

theorem Group_Run_aggregate:
  assumes "distinct (map fst returned)" and "fst ` set returned \<subseteq> {..<length (Instances g)}"
  shows
    "(fst ` set returned = {..<length (Instances g)} \<longrightarrow>
        Group_Run g parent returned =
          Some (errors_Join (map (\<lambda>i. checkErr (returnedErr returned i))
                                 [0..<length (Instances g)]))) \<and>
     (fst ` set returned \<noteq> {..<length (Instances g)} \<longrightarrow>
        Group_Run g parent returned = None) \<and>
     (errors_Join (map (\<lambda>i. checkErr (returnedErr returned i)) [0..<length (Instances g)])
          = None
        \<longleftrightarrow> (\<forall>i<length (Instances g). checkErr (returnedErr returned i) = None)) \<and>
     (\<forall>e. errors_Join (map (\<lambda>i. checkErr (returnedErr returned i))
                            [0..<length (Instances g)]) = Some e \<longrightarrow>
          e = joinError (List.map_filter (\<lambda>i. checkErr (returnedErr returned i))
                           [0..<length (Instances g)])) \<and>
     (\<forall>returned'. distinct (map fst returned') \<and> set returned' = set returned \<longrightarrow>
          Group_Run g parent returned' = Group_Run g parent returned)"
proof (intro conjI allI impI)
  assume "fst ` set returned = {..<length (Instances g)}"
  then show "Group_Run g parent returned =
          Some (errors_Join (map (\<lambda>i. checkErr (returnedErr returned i))
                                 [0..<length (Instances g)]))"
    by (simp add: Group_Run_eq [OF assms])
next
  assume "fst ` set returned \<noteq> {..<length (Instances g)}"
  then show "Group_Run g parent returned = None"
    by (simp add: Group_Run_eq [OF assms])
next
  show "errors_Join (map (\<lambda>i. checkErr (returnedErr returned i)) [0..<length (Instances g)])
          = None
        \<longleftrightarrow> (\<forall>i<length (Instances g). checkErr (returnedErr returned i) = None)"
    by (auto simp: errors_Join_None_iff)
next
  fix e
  assume "errors_Join (map (\<lambda>i. checkErr (returnedErr returned i))
                            [0..<length (Instances g)]) = Some e"
  from errors_Join_Some [OF this]
  show "e = joinError (List.map_filter (\<lambda>i. checkErr (returnedErr returned i))
                           [0..<length (Instances g)])"
    by (simp add: List.map_filter_def filter_map comp_def)
next
  fix returned'
  assume "distinct (map fst returned') \<and> set returned' = set returned"
  then show "Group_Run g parent returned' = Group_Run g parent returned"
    using Group_Run_order [OF assms(1)] by blast
qed

text \<open>
  Three instances: the third fails first and the first fails last.  While the first is
  still running \<open>Group.Run\<close> has no result; afterwards the joined error lists the first
  instance before the third.
\<close>

theorem Group_Run_aggregate_witness:
  "Group_Run threeInstances None
      [(2, Some (ExitError (Some 512)), 5000000), (1, None, 7000000)] = None \<and>
   Group_Run threeInstances None
      [(2, Some (ExitError (Some 512)), 5000000), (1, None, 7000000),
       (0, Some (ExitError (Some 256)), 9000000)]
     = Some (Some (joinError [ExitError (Some 256), ExitError (Some 512)]))"
proof -
  let ?two = "[(2::nat, Some (ExitError (Some 512)), 5000000::nat), (1, None, 7000000)]"
  let ?three = "[(2::nat, Some (ExitError (Some 512)), 5000000::nat), (1, None, 7000000),
                 (0, Some (ExitError (Some 256)), 9000000)]"
  have n: "length (Instances threeInstances) = 3"
    by (simp add: threeInstances_def)
  have upt3: "[0..<3] = [0, 1, 2]"
    by (simp add: upt_rec)
  have sub2: "fst ` set ?two \<subseteq> {..<length (Instances threeInstances)}"
    unfolding n by simp
  have ne2: "fst ` set ?two \<noteq> {..<length (Instances threeInstances)}"
  proof
    assume "fst ` set ?two = {..<length (Instances threeInstances)}"
    then have "(0::nat) \<in> fst ` set ?two"
      unfolding n by (metis lessThan_iff zero_less_numeral)
    then show False by simp
  qed
  have first: "Group_Run threeInstances None ?two = None"
    using Group_Run_aggregate [of ?two threeInstances None] sub2 ne2 by simp
  have eq3: "fst ` set ?three = {..<length (Instances threeInstances)}"
    unfolding n by auto
  then have sub3: "fst ` set ?three \<subseteq> {..<length (Instances threeInstances)}"
    by (simp only: subset_refl)
  have "Group_Run threeInstances None ?three =
      Some (errors_Join (map (\<lambda>i. checkErr (returnedErr ?three i))
                             [0..<length (Instances threeInstances)]))"
    using Group_Run_aggregate [of ?three threeInstances None] sub3 eq3 by simp
  also have "\<dots> = Some (Some (joinError [ExitError (Some 256), ExitError (Some 512)]))"
    unfolding n upt3
    by (simp add: returnedErr_def checkErr_def errors_Is.simps errors_Join_def
        List.map_filter_simps Signaled_def)
  finally show ?thesis using first by simp
qed

section \<open>Cancellation of the group\<close>


subsection \<open>The command under a context\<close>



















section \<open>Properties of splitting and trimming\<close>

lemma SplitSeq_no_sep: "sep \<notin> set s \<Longrightarrow> strings_SplitSeq s sep = [s]"
proof -
  assume "sep \<notin> set s"
  then have d: "dropWhile (\<lambda>c. c \<noteq> sep) s = []"
    by (auto simp: dropWhile_eq_Nil_conv)
  show ?thesis by (subst strings_SplitSeq.simps) (simp only: d list.case)
qed

lemma SplitSeq_append:
  assumes "sep \<notin> set a"
  shows "strings_SplitSeq (a @ sep # b) sep = a # strings_SplitSeq b sep"
proof -
  have d: "dropWhile (\<lambda>c. c \<noteq> sep) (a @ sep # b) = sep # b"
    using assms by (induction a) auto
  have t: "takeWhile (\<lambda>c. c \<noteq> sep) (a @ sep # b) = a"
    using assms by (induction a) auto
  show ?thesis
    by (subst strings_SplitSeq.simps) (simp add: d t)
qed

lemma SplitSeq_Join:
  "\<forall>t\<in>set toks. sep \<notin> set t \<Longrightarrow>
   strings_SplitSeq (strings_Join toks [sep]) sep = (if toks = [] then [[]] else toks)"
proof (induction toks "[sep]" rule: strings_Join.induct)
  case 1
  show ?case by (simp add: SplitSeq_no_sep)
next
  case (2 e)
  then show ?case by (simp add: SplitSeq_no_sep)
next
  case (3 e v va)
  then show ?case by (simp add: SplitSeq_append)
qed

lemma leadingSpace_Nil: "leadingSpace [] = None"
  by (simp add: leadingSpace_def whiteSpace_def)

lemma trailingSpace_Nil: "trailingSpace [] = None"
  by (simp add: trailingSpace_def whiteSpace_def)

lemma asciiSpace_cases:
  assumes "asciiSpace c"
  obtains "c = CHR 0x09" | "c = CHR 0x0A" | "c = CHR 0x0B" | "c = CHR 0x0C" | "c = CHR 0x0D"
    | "c = CHR 0x20"
  using assms unfolding asciiSpace_def by blast

lemma leadingSpace_ascii: "asciiSpace c \<Longrightarrow> leadingSpace (c # s) = Some [c]"
  by (erule asciiSpace_cases) (simp_all add: leadingSpace_def whiteSpace_def)

lemma trailingSpace_ascii: "asciiSpace c \<Longrightarrow> trailingSpace (s @ [c]) = Some [c]"
  by (erule asciiSpace_cases) (simp_all add: trailingSpace_def whiteSpace_def)

lemma TrimLeftSpace_ascii: "\<forall>c\<in>set l. asciiSpace c \<Longrightarrow> TrimLeftSpace (l @ s) = TrimLeftSpace s"
proof (induction l)
  case Nil
  show ?case by simp
next
  case (Cons c l)
  then have "leadingSpace ((c # l) @ s) = Some [c]"
    by (simp add: leadingSpace_ascii)
  then have "TrimLeftSpace ((c # l) @ s) = TrimLeftSpace (l @ s)"
    by (subst TrimLeftSpace.simps) simp
  with Cons show ?case by simp
qed

lemma TrimRightSpace_ascii: "\<forall>c\<in>set r. asciiSpace c \<Longrightarrow> TrimRightSpace (s @ r) = TrimRightSpace s"
proof (induction r rule: rev_induct)
  case Nil
  show ?case by simp
next
  case (snoc c r)
  then have "asciiSpace c" by simp
  then have ts: "trailingSpace ((s @ r) @ [c]) = Some [c]"
    by (rule trailingSpace_ascii)
  have "TrimRightSpace ((s @ r) @ [c]) = TrimRightSpace (s @ r)"
    by (subst TrimRightSpace.simps) (simp only: ts option.case, simp)
  with snoc show ?case by simp
qed

lemma whiteSpace_continuation:
  "enc \<in> set whiteSpace \<Longrightarrow> b \<in> set (tl enc) \<Longrightarrow> \<not> asciiSpace b"
  by (auto simp: whiteSpace_def asciiSpace_def)

lemma take_append_ascii:
  assumes enc: "enc \<in> set whiteSpace" and s: "s \<noteq> []" and r: "\<forall>c\<in>set r. asciiSpace c"
  shows "take (length enc) (s @ r) = enc \<longleftrightarrow> take (length enc) s = enc"
proof (cases "length enc \<le> length s")
  case True
  then show ?thesis by simp
next
  case False
  show ?thesis
  proof
    assume eq: "take (length enc) (s @ r) = enc"
    from False have "take (length enc) (s @ r) = s @ take (length enc - length s) r"
      by simp
    with eq have e: "enc = s @ take (length enc - length s) r" by simp
    define r1 where "r1 = take (length enc - length s) r"
    from e have "length enc = length s + length r1" unfolding r1_def
      by (metis length_append)
    with False have "r1 \<noteq> []" by auto
    then obtain b where b: "b \<in> set r1" by (cases r1) auto
    then have "b \<in> set r" unfolding r1_def by (rule in_set_takeD)
    with r have "asciiSpace b" by blast
    moreover from e s b have "b \<in> set (tl enc)"
      unfolding r1_def [symmetric] by (cases s) auto
    ultimately show "take (length enc) s = enc"
      using whiteSpace_continuation [OF enc] by blast
  next
    assume "take (length enc) s = enc"
    then have "length enc \<le> length s"
      by (metis length_take min.cobounded2 min.commute)
    with False show "take (length enc) (s @ r) = enc" by simp
  qed
qed

lemma leadingSpace_append:
  assumes "s \<noteq> []" and "\<forall>c\<in>set r. asciiSpace c"
  shows "leadingSpace (s @ r) = leadingSpace s"
  unfolding leadingSpace_def
proof (rule find_cong)
  show "whiteSpace = whiteSpace" ..
next
  fix enc assume "enc \<in> set whiteSpace"
  then show "(take (length enc) (s @ r) = enc) = (take (length enc) s = enc)"
    using assms by (rule take_append_ascii)
qed

lemma TrimLeftSpace_append:
  assumes r: "\<forall>c\<in>set r. asciiSpace c"
  shows "TrimLeftSpace (t @ r) = (if TrimLeftSpace t = [] then [] else TrimLeftSpace t @ r)"
proof (induction t rule: TrimLeftSpace.induct)
  case (1 t)
  show ?case
  proof (cases "t = []")
    case True
    have "TrimLeftSpace (r @ []) = TrimLeftSpace []"
      using r by (rule TrimLeftSpace_ascii)
    moreover have "TrimLeftSpace [] = []"
      by (subst TrimLeftSpace.simps) (simp add: leadingSpace_Nil)
    ultimately show ?thesis using True by simp
  next
    case False
    then have ls: "leadingSpace (t @ r) = leadingSpace t"
      using r by (rule leadingSpace_append)
    show ?thesis
    proof (cases "leadingSpace t")
      case None
      then have "TrimLeftSpace t = t" by (subst TrimLeftSpace.simps) simp
      moreover from None ls have "TrimLeftSpace (t @ r) = t @ r"
        by (subst TrimLeftSpace.simps) simp
      ultimately show ?thesis using False by simp
    next
      case (Some enc)
      then have "take (length enc) t = enc"
        by (auto simp: leadingSpace_def find_Some_iff)
      then have le: "length enc \<le> length t"
        by (metis length_take min.cobounded2 min.commute)
      from Some have a: "TrimLeftSpace t = TrimLeftSpace (drop (length enc) t)"
        by (subst TrimLeftSpace.simps) simp
      from Some ls le have b: "TrimLeftSpace (t @ r) = TrimLeftSpace (drop (length enc) t @ r)"
        by (subst TrimLeftSpace.simps) simp
      from "1.IH" [OF Some] a b show ?thesis by simp
    qed
  qed
qed

lemma TrimRightSpace_Nil: "TrimRightSpace [] = []"
  by (subst TrimRightSpace.simps) (simp add: trailingSpace_Nil)

lemma TrimSpace_ascii:
  assumes "\<forall>c\<in>set l. asciiSpace c" and "\<forall>c\<in>set r. asciiSpace c"
  shows "strings_TrimSpace (l @ t @ r) = strings_TrimSpace t"
  using assms
  by (simp add: strings_TrimSpace_def TrimLeftSpace_ascii TrimLeftSpace_append
      TrimRightSpace_ascii TrimRightSpace_Nil)

lemma TrimLeftSpace_Nil: "TrimLeftSpace [] = []"
  by (subst TrimLeftSpace.simps) (simp add: leadingSpace_Nil)

lemma TrimSpace_blank: "\<forall>c\<in>set b. asciiSpace c \<Longrightarrow> strings_TrimSpace b = []"
  using TrimSpace_ascii [of b "[]" "[]"]
  by (simp add: strings_TrimSpace_def TrimRightSpace_Nil TrimLeftSpace_Nil)

section \<open>Properties of the watch-set resolver\<close>

lemma parseInts_loop_cong:
  "map strings_TrimSpace toks = map strings_TrimSpace toks' \<Longrightarrow>
   parseInts_loop toks acc = parseInts_loop toks' acc"
proof (induction toks arbitrary: toks' acc)
  case Nil
  then show ?case by simp
next
  case (Cons tok toks)
  then obtain tok' rest where t: "toks' = tok' # rest"
    and eq: "strings_TrimSpace tok = strings_TrimSpace tok'"
    and m: "map strings_TrimSpace toks = map strings_TrimSpace rest"
    by (cases toks') auto
  from Cons.IH [OF m] show ?case
    by (simp add: t eq Let_def split: sum.splits)
qed

lemma parseInts_loop_blank:
  "strings_TrimSpace b = [] \<Longrightarrow> parseInts_loop (a @ b # c) acc = parseInts_loop (a @ c) acc"
  by (induction a arbitrary: acc) (simp_all add: Let_def split: sum.splits)

lemma parseInts_loop_error:
  "tok \<in> set toks \<Longrightarrow> strings_TrimSpace tok \<noteq> [] \<Longrightarrow>
   strconv_Atoi (strings_TrimSpace tok) = Inl e \<Longrightarrow>
   \<exists>err. parseInts_loop toks acc = Inl (Errorf_w ''parse int'' err)"
proof (induction toks arbitrary: acc)
  case Nil
  then show ?case by simp
next
  case (Cons t toks)
  show ?case
  proof (cases "strings_TrimSpace t = []")
    case True
    with Cons show ?thesis by (auto simp: Let_def)
  next
    case False
    show ?thesis
    proof (cases "strconv_Atoi (strings_TrimSpace t)")
      case (Inl err)
      with False show ?thesis by (simp add: Let_def)
    next
      case (Inr n)
      with False Cons show ?thesis by (auto simp: Let_def)
    qed
  qed
qed

lemma parseInts_Join:
  assumes "\<forall>t\<in>set toks. CHR '','' \<notin> set t"
  shows "parseInts (strings_Join toks '','') = parseInts_loop toks []"
proof (cases "toks = []")
  case True
  have "strings_TrimSpace [] = []"
    by (simp add: strings_TrimSpace_def TrimLeftSpace_Nil TrimRightSpace_Nil)
  with True show ?thesis
    by (simp add: parseInts_def SplitSeq_no_sep)
next
  case False
  with SplitSeq_Join [OF assms] show ?thesis
    by (simp add: parseInts_def)
qed

lemma asciiSpace_not_comma: "asciiSpace c \<Longrightarrow> c \<noteq> CHR '',''"
  by (auto simp: asciiSpace_def)

lemma applyWatch_loop_length:
  "length (snd (applyWatch_loop insts is)) = length insts"
  by (induction insts "is" rule: applyWatch_loop.induct) auto

lemma applyWatch_loop_ok:
  "\<forall>i\<in>set is. 0 \<le> i \<and> i < int (length insts) \<Longrightarrow>
   applyWatch_loop insts is =
     (None, map (\<lambda>j. if int j \<in> set is then (insts ! j)\<lparr>Watch := True\<rparr> else insts ! j)
                [0..<length insts])"
proof (induction "is" arbitrary: insts)
  case Nil
  show ?case by (simp add: map_nth)
next
  case (Cons i "is")
  let ?insts = "insts[nat i := (insts ! nat i)\<lparr>Watch := True\<rparr>]"
  from Cons.prems have i: "0 \<le> i" "i < int (length insts)"
    and rest: "\<forall>i\<in>set is. 0 \<le> i \<and> i < int (length ?insts)"
    by auto
  have "applyWatch_loop insts (i # is) = applyWatch_loop ?insts is"
    using i by simp
  also have "\<dots> = (None, map (\<lambda>j. if int j \<in> set is then (?insts ! j)\<lparr>Watch := True\<rparr>
                                      else ?insts ! j) [0..<length ?insts])"
    by (rule Cons.IH [OF rest])
  also have "map (\<lambda>j. if int j \<in> set is then (?insts ! j)\<lparr>Watch := True\<rparr> else ?insts ! j)
                 [0..<length ?insts] =
             map (\<lambda>j. if int j \<in> set (i # is) then (insts ! j)\<lparr>Watch := True\<rparr> else insts ! j)
                 [0..<length insts]"
  proof (rule map_cong)
    show "[0..<length ?insts] = [0..<length insts]" by simp
  next
    fix j assume "j \<in> set [0..<length insts]"
    then have j: "j < length insts" by simp
    show "(if int j \<in> set is then (?insts ! j)\<lparr>Watch := True\<rparr> else ?insts ! j) =
          (if int j \<in> set (i # is) then (insts ! j)\<lparr>Watch := True\<rparr> else insts ! j)"
    proof (cases "j = nat i")
      case True
      with i j show ?thesis by simp
    next
      case False
      with i have "int j \<noteq> i" by auto
      with False show ?thesis by simp
    qed
  qed
  finally show ?case .
qed

lemma applyWatch_loop_error:
  "\<exists>i\<in>set is. i < 0 \<or> int (length insts) \<le> i \<Longrightarrow>
   \<exists>i\<in>set is. (i < 0 \<or> int (length insts) \<le> i) \<and>
     fst (applyWatch_loop insts is) = Some (Errorf_d ''parse watch: index out of range'' i)"
proof (induction "is" arbitrary: insts)
  case Nil
  then show ?case by simp
next
  case (Cons i "is")
  show ?case
  proof (cases "i < 0 \<or> int (length insts) \<le> i")
    case True
    then show ?thesis by auto
  next
    case False
    let ?insts = "insts[nat i := (insts ! nat i)\<lparr>Watch := True\<rparr>]"
    from False Cons.prems have "\<exists>i\<in>set is. i < 0 \<or> int (length ?insts) \<le> i"
      by auto
    from Cons.IH [OF this] False show ?thesis by auto
  qed
qed

lemma watched_applied:
  assumes "\<forall>i\<in>set is. 0 \<le> i \<and> i < int (length insts)"
  shows "watched (map (\<lambda>j. if int j \<in> set is then (insts ! j)\<lparr>Watch := True\<rparr> else insts ! j)
                     [0..<length insts]) = watched insts \<union> nat ` set is"
proof -
  have A: "{j. j < length insts \<and> int j \<in> set is} = nat ` set is"
  proof (intro set_eqI iffI)
    fix x assume "x \<in> {j. j < length insts \<and> int j \<in> set is}"
    then have "int x \<in> set is" by simp
    then show "x \<in> nat ` set is" by (metis image_eqI nat_int)
  next
    fix x assume "x \<in> nat ` set is"
    then obtain i where i: "i \<in> set is" and x: "x = nat i" by blast
    with assms have "0 \<le> i" "i < int (length insts)" by auto
    with i x show "x \<in> {j. j < length insts \<and> int j \<in> set is}" by simp
  qed
  have "watched (map (\<lambda>j. if int j \<in> set is then (insts ! j)\<lparr>Watch := True\<rparr> else insts ! j)
                     [0..<length insts])
        = watched insts \<union> {j. j < length insts \<and> int j \<in> set is}"
    by (auto simp: watched_def)
  with A show ?thesis by simp
qed

lemma parseInts_none: "parseInts ''none'' = Inl (Errorf_w ''parse int'' (NumError ''Atoi'' ''none'' ErrSyntax))"
  by code_simp

lemma parseInts_all: "parseInts ''all'' = Inl (Errorf_w ''parse int'' (NumError ''Atoi'' ''all'' ErrSyntax))"
  by code_simp

lemma parseInts_empty: "parseInts [] = Inr []"
  by code_simp

lemma applyWatch_parsed:
  "parseInts w = Inr is \<Longrightarrow> applyWatch insts w = applyWatch_loop insts is"
  by (auto simp: applyWatch_def parseInts_none parseInts_all parseInts_empty)

section \<open>The watch specification in construction\<close>

lemma New_instances_ok: "\<exists>insts. New_instances path opts = Inr insts"
  using parseArgs_nonempty [of "args opts"]
  by (cases "parseArgs (args opts)") (simp_all add: New_instances_def Let_def)

lemma New_instances_fresh:
  "New_instances path opts = Inr insts \<Longrightarrow> insts \<noteq> [] \<and> watched insts = {}"
  by (cases "parseArgs (args opts)")
    (auto simp: New_instances_def Let_def watched_def nth_Cons' split: if_splits)

lemma New_watch_error:
  assumes "fold (\<lambda>option opts. option opts) options
             \<lparr>args = [], watch = ''none'', logger = Some DiscardHandler\<rparr> = opts"
    and "logger opts \<noteq> None" and "LookPath name = Inr path"
    and "New_instances path opts = Inr insts"
    and "fst (applyWatch insts (watch opts)) = Some err"
  shows "New LookPath name options = Inl err"
  using assms by (cases "applyWatch insts (watch opts)") (auto simp: New_def)

lemma padded_literal_not_literal:
  assumes "l \<noteq> [] \<or> r \<noteq> []" and "lit = ''all'' \<or> lit = ''none''"
  shows "l @ lit @ r \<noteq> [] \<and> l @ lit @ r \<noteq> ''none'' \<and> l @ lit @ r \<noteq> ''all''"
proof -
  have len: "length lit < length (l @ lit @ r)"
    using assms(1) by auto
  have ne_lit: "l @ lit @ r \<noteq> lit"
  proof
    assume "l @ lit @ r = lit"
    then have "length (l @ lit @ r) = length lit" by (rule arg_cong)
    with len show False by simp
  qed
  have ne_nil: "l @ lit @ r \<noteq> []"
    using assms(2) by auto
  show ?thesis
  proof (cases "lit = ''all''")
    case True
    have "CHR ''a'' \<in> set (l @ lit @ r)" unfolding True by simp
    moreover have "CHR ''a'' \<notin> set ''none''" by simp
    ultimately have "l @ lit @ r \<noteq> ''none''" by metis
    moreover from ne_lit have "l @ lit @ r \<noteq> ''all''" unfolding True .
    ultimately show ?thesis using ne_nil by blast
  next
    case False
    with assms(2) have n: "lit = ''none''" by simp
    have "length (l @ lit @ r) \<noteq> length ''all''"
      using len unfolding n by simp
    then have "l @ lit @ r \<noteq> ''all''" by metis
    moreover from ne_lit have "l @ lit @ r \<noteq> ''none''" unfolding n .
    ultimately show ?thesis using ne_nil by blast
  qed
qed

lemma TrimSpace_all: "strings_TrimSpace ''all'' = ''all''"
  by code_simp

lemma TrimSpace_none: "strings_TrimSpace ''none'' = ''none''"
  by code_simp

lemma Atoi_all: "strconv_Atoi ''all'' = Inl (NumError ''Atoi'' ''all'' ErrSyntax)"
  by code_simp

lemma Atoi_none: "strconv_Atoi ''none'' = Inl (NumError ''Atoi'' ''none'' ErrSyntax)"
  by code_simp

lemma applyWatch_padded_literal:
  assumes l: "\<forall>c\<in>set l. asciiSpace c" and r: "\<forall>c\<in>set r. asciiSpace c"
    and ne: "l \<noteq> [] \<or> r \<noteq> []" and lit: "lit = ''all'' \<or> lit = ''none''"
  shows "applyWatch insts (l @ lit @ r) =
         (Some (Errorf_w ''parse watch''
                  (Errorf_w ''parse int'' (NumError ''Atoi'' lit ErrSyntax))), insts)"
proof -
  let ?w = "l @ lit @ r"
  have nolit: "?w \<noteq> [] \<and> ?w \<noteq> ''none'' \<and> ?w \<noteq> ''all''"
    using ne lit by (rule padded_literal_not_literal)
  have "CHR '','' \<notin> set lit" using lit by auto
  then have "CHR '','' \<notin> set ?w"
    using l r asciiSpace_not_comma by auto
  then have split: "strings_SplitSeq ?w CHR '','' = [?w]"
    by (rule SplitSeq_no_sep)
  have trim: "strings_TrimSpace ?w = lit"
    using TrimSpace_ascii [OF l r, of lit] lit TrimSpace_all TrimSpace_none by auto
  have atoi: "strconv_Atoi lit = Inl (NumError ''Atoi'' lit ErrSyntax)"
    using lit Atoi_all Atoi_none by auto
  have "lit \<noteq> []" using lit by auto
  with trim atoi have "parseInts ?w = Inl (Errorf_w ''parse int'' (NumError ''Atoi'' lit ErrSyntax))"
    by (simp add: parseInts_def split Let_def)
  with nolit show ?thesis
    by (simp add: applyWatch_def)
qed

text \<open>
  C9.  The literals \<open>none\<close> and \<open>all\<close> are recognised when they are the whole
  specification.  A specification that is one of them with ASCII white space before or
  after it is not the literal: it is parsed as a list of integers, its only piece is
  trimmed to the literal, which is no integer, and \<open>applyWatch\<close> returns the parse error
  and sets no flag.  Construction with such a specification fails with that error.
\<close>

theorem watch_literal_exact:
  assumes "\<forall>c\<in>set l. asciiSpace c" and "\<forall>c\<in>set r. asciiSpace c"
    and "l \<noteq> [] \<or> r \<noteq> []" and "lit = ''all'' \<or> lit = ''none''"
  shows
    "applyWatch insts ''none'' = (None, insts) \<and>
     applyWatch insts ''all'' = (None, map (\<lambda>i. i\<lparr>Watch := True\<rparr>) insts) \<and>
     applyWatch insts (l @ lit @ r) =
       (Some (Errorf_w ''parse watch''
                (Errorf_w ''parse int'' (NumError ''Atoi'' lit ErrSyntax))), insts) \<and>
     (fold (\<lambda>option opts. option opts) options
          \<lparr>args = [], watch = ''none'', logger = Some DiscardHandler\<rparr> = opts \<and>
      watch opts = l @ lit @ r \<and> logger opts \<noteq> None \<and> LookPath name = Inr path \<longrightarrow>
        New LookPath name options =
          Inl (Errorf_w ''parse watch''
                 (Errorf_w ''parse int'' (NumError ''Atoi'' lit ErrSyntax))))"
proof (intro conjI impI)
  show "applyWatch insts ''none'' = (None, insts)"
    by (simp add: applyWatch_def)
  show "applyWatch insts ''all'' = (None, map (\<lambda>i. i\<lparr>Watch := True\<rparr>) insts)"
    by (simp add: applyWatch_def)
  show "applyWatch insts (l @ lit @ r) =
       (Some (Errorf_w ''parse watch''
                (Errorf_w ''parse int'' (NumError ''Atoi'' lit ErrSyntax))), insts)"
    using assms by (rule applyWatch_padded_literal)
next
  assume h: "fold (\<lambda>option opts. option opts) options
          \<lparr>args = [], watch = ''none'', logger = Some DiscardHandler\<rparr> = opts \<and>
      watch opts = l @ lit @ r \<and> logger opts \<noteq> None \<and> LookPath name = Inr path"
  obtain built where built: "New_instances path opts = Inr built"
    using New_instances_ok by blast
  have "fst (applyWatch built (watch opts)) =
      Some (Errorf_w ''parse watch'' (Errorf_w ''parse int'' (NumError ''Atoi'' lit ErrSyntax)))"
    using h applyWatch_padded_literal [OF assms, of built] by simp
  with h built show "New LookPath name options =
          Inl (Errorf_w ''parse watch''
                 (Errorf_w ''parse int'' (NumError ''Atoi'' lit ErrSyntax)))"
    using New_watch_error by blast
qed

text \<open>The specifications \<open>" all "\<close> and \<open>" none "\<close>.\<close>

theorem watch_literal_exact_witness:
  "instanceArgs (New testLookPath ''echo'' [WithArgs [''--'', ''a'', ''--'', ''b''], WithWatch '' all '']) = None \<and>
   New testLookPath ''echo'' [WithArgs [''--'', ''a'', ''--'', ''b''], WithWatch '' all '']
     = Inl (Errorf_w ''parse watch'' (Errorf_w ''parse int'' (NumError ''Atoi'' ''all'' ErrSyntax))) \<and>
   New testLookPath ''echo'' [WithArgs [''--'', ''a'', ''--'', ''b''], WithWatch '' none '']
     = Inl (Errorf_w ''parse watch'' (Errorf_w ''parse int'' (NumError ''Atoi'' ''none'' ErrSyntax)))"
proof -
  let ?opts = "\<lambda>w. \<lparr>args = [''--'', ''a'', ''--'', ''b''], watch = w, logger = Some DiscardHandler\<rparr>"
  have sp: "\<forall>c\<in>set '' ''. asciiSpace c" by (simp add: asciiSpace_def)
  have ne: "'' '' \<noteq> [] \<or> '' '' \<noteq> []" by simp
  have lp: "testLookPath ''echo'' = Inr ''/usr/bin/echo''" by (simp add: testLookPath_def)
  have a: "New testLookPath ''echo'' [WithArgs [''--'', ''a'', ''--'', ''b''], WithWatch '' all '']
     = Inl (Errorf_w ''parse watch'' (Errorf_w ''parse int'' (NumError ''Atoi'' ''all'' ErrSyntax)))"
    using watch_literal_exact [OF sp sp ne, of "''all''" "[]"
        "[WithArgs [''--'', ''a'', ''--'', ''b''], WithWatch '' all '']" "?opts '' all ''"
        testLookPath "''echo''" "''/usr/bin/echo''"] lp
    by (simp add: WithArgs_def WithWatch_def)
  have b: "New testLookPath ''echo'' [WithArgs [''--'', ''a'', ''--'', ''b''], WithWatch '' none '']
     = Inl (Errorf_w ''parse watch'' (Errorf_w ''parse int'' (NumError ''Atoi'' ''none'' ErrSyntax)))"
    using watch_literal_exact [OF sp sp ne, of "''none''" "[]"
        "[WithArgs [''--'', ''a'', ''--'', ''b''], WithWatch '' none '']" "?opts '' none ''"
        testLookPath "''echo''" "''/usr/bin/echo''"] lp
    by (simp add: WithArgs_def WithWatch_def)
  from a b show ?thesis by (simp add: instanceArgs_def)
qed

text \<open>
  C10.  Let two specifications parse to lists of indexes with the same elements, all in
  range; one may repeat an index that the other lists once.  Both are accepted without
  error and leave the same instances: an instance is watched afterwards exactly when it
  was watched before or its index is listed.
\<close>

theorem applyWatch_duplicate_indexes:
  assumes "parseInts w = Inr is" and "parseInts w' = Inr is'" and "set is = set is'"
    and "\<forall>i\<in>set is. 0 \<le> i \<and> i < int (length insts)"
  shows "fst (applyWatch insts w) = None \<and>
         applyWatch insts w = applyWatch insts w' \<and>
         map Watch (snd (applyWatch insts w)) =
           map (\<lambda>j. Watch (insts ! j) \<or> int j \<in> set is) [0..<length insts]"
proof -
  have w: "applyWatch insts w =
      (None, map (\<lambda>j. if int j \<in> set is then (insts ! j)\<lparr>Watch := True\<rparr> else insts ! j)
                 [0..<length insts])"
    using applyWatch_parsed [OF assms(1)] applyWatch_loop_ok [OF assms(4)] by simp
  have "\<forall>i\<in>set is'. 0 \<le> i \<and> i < int (length insts)"
    using assms(3,4) by simp
  then have w': "applyWatch insts w' =
      (None, map (\<lambda>j. if int j \<in> set is' then (insts ! j)\<lparr>Watch := True\<rparr> else insts ! j)
                 [0..<length insts])"
    using applyWatch_parsed [OF assms(2)] applyWatch_loop_ok by simp
  from w w' assms(3) show ?thesis
    by (auto simp: comp_def)
qed

lemma parseInts_1_1: "parseInts ''1,1'' = Inr [1, 1]"
  by code_simp

lemma parseInts_1: "parseInts ''1'' = Inr [1]"
  by code_simp

text \<open>The specifications \<open>1,1\<close> and \<open>1\<close> on three instances.\<close>

theorem applyWatch_duplicate_indexes_witness:
  "parseInts ''1,1'' = Inr [1, 1] \<and> parseInts ''1'' = Inr [1] \<and>
   fst (applyWatch (Instances threeInstances) ''1,1'') = None \<and>
   applyWatch (Instances threeInstances) ''1,1'' = applyWatch (Instances threeInstances) ''1'' \<and>
   map Watch (snd (applyWatch (Instances threeInstances) ''1,1'')) = [False, True, False]"
proof -
  have n: "length (Instances threeInstances) = 3"
    by (simp add: threeInstances_def)
  have upt3: "[0..<3] = [0, 1, 2]"
    by (simp add: upt_rec)
  have r: "\<forall>i\<in>set [1, 1 :: int]. 0 \<le> i \<and> i < int (length (Instances threeInstances))"
    unfolding n by simp
  have s: "set [1, 1 :: int] = set [1]" by simp
  note th = applyWatch_duplicate_indexes [OF parseInts_1_1 parseInts_1 s r]
  have "map Watch (snd (applyWatch (Instances threeInstances) ''1,1'')) =
      map (\<lambda>j. Watch (Instances threeInstances ! j) \<or> int j \<in> set [1, 1])
        [0..<length (Instances threeInstances)]"
    by (rule th [THEN conjunct2, THEN conjunct2])
  also have "\<dots> = [False, True, False]"
    unfolding n upt3 by (simp add: threeInstances_def)
  finally have flags:
    "map Watch (snd (applyWatch (Instances threeInstances) ''1,1'')) = [False, True, False]" .
  show ?thesis
    by (intro conjI parseInts_1_1 parseInts_1 th [THEN conjunct1]
        th [THEN conjunct2, THEN conjunct1] flags)
qed


lemma parseInts_padded:
  assumes "\<forall>(l, t, r)\<in>set padded.
             (\<forall>c\<in>set l. asciiSpace c) \<and> (\<forall>c\<in>set r. asciiSpace c) \<and> CHR '','' \<notin> set t"
  shows "parseInts (strings_Join (map (\<lambda>(l, t, r). l @ t @ r) padded) '','') =
         parseInts (strings_Join (map (\<lambda>(l, t, r). t) padded) '','')"
proof -
  have c1: "\<forall>t\<in>set (map (\<lambda>(l, t, r). l @ t @ r) padded). CHR '','' \<notin> set t"
    using assms asciiSpace_not_comma by fastforce
  have c2: "\<forall>t\<in>set (map (\<lambda>(l, t, r). t) padded). CHR '','' \<notin> set t"
    using assms by fastforce
  have "map strings_TrimSpace (map (\<lambda>(l, t, r). l @ t @ r) padded) =
        map strings_TrimSpace (map (\<lambda>(l, t, r). t) padded)"
    using assms by (auto simp: TrimSpace_ascii)
  then show ?thesis
    using parseInts_Join [OF c1] parseInts_Join [OF c2] parseInts_loop_cong by simp
qed

lemma parseInts_blank_piece:
  assumes "\<forall>c\<in>set b. asciiSpace c" and "\<forall>t\<in>set (toks1 @ toks2). CHR '','' \<notin> set t"
  shows "parseInts (strings_Join (toks1 @ b # toks2) '','') =
         parseInts (strings_Join (toks1 @ toks2) '','')"
proof -
  have "\<forall>t\<in>set (toks1 @ b # toks2). CHR '','' \<notin> set t"
    using assms asciiSpace_not_comma by auto
  from parseInts_Join [OF this] parseInts_Join [OF assms(2)]
  show ?thesis
    using parseInts_loop_blank [OF TrimSpace_blank [OF assms(1)]] by simp
qed

lemma applyWatch_parse_error:
  assumes "w \<noteq> []" and "w \<noteq> ''none''" and "w \<noteq> ''all''"
    and "tok \<in> set (strings_SplitSeq w CHR '','')" and "strings_TrimSpace tok \<noteq> []"
    and "strconv_Atoi (strings_TrimSpace tok) = Inl e"
  shows "\<exists>err. applyWatch insts w =
           (Some (Errorf_w ''parse watch'' (Errorf_w ''parse int'' err)), insts)"
proof -
  from parseInts_loop_error [OF assms(4,5,6)]
  obtain err where "parseInts w = Inl (Errorf_w ''parse int'' err)"
    unfolding parseInts_def by blast
  with assms(1,2,3) show ?thesis by (simp add: applyWatch_def)
qed

lemma applyWatch_range_error:
  assumes "parseInts w = Inr is" and "i \<in> set is" and "i < 0 \<or> int (length insts) \<le> i"
  shows "\<exists>i'\<in>set is. (i' < 0 \<or> int (length insts) \<le> i') \<and>
           fst (applyWatch insts w) = Some (Errorf_d ''parse watch: index out of range'' i')"
  using applyWatch_parsed [OF assms(1), of insts]
    applyWatch_loop_error [of "is" insts] assms(2,3) by auto

lemma applyWatch_in_range:
  assumes "parseInts w = Inr is" and "\<forall>i\<in>set is. 0 \<le> i \<and> i < int (length insts)"
  shows "fst (applyWatch insts w) = None \<and>
         watched (snd (applyWatch insts w)) = watched insts \<union> nat ` set is"
  using applyWatch_parsed [OF assms(1), of insts] applyWatch_loop_ok [OF assms(2)]
    watched_applied [OF assms(2)] by simp

lemma watched_all: "watched (map (\<lambda>i. i\<lparr>Watch := True\<rparr>) insts) = {..<length insts}"
  by (auto simp: watched_def)

lemma ParseUint_loop_non_digit:
  "c \<in> set ds \<Longrightarrow> \<not> isDigit c \<Longrightarrow> \<exists>e. ParseUint_loop ds n = Inl e"
  by (induction ds arbitrary: n) (auto simp: Let_def)

lemma Atoi_non_digit:
  assumes "c \<in> set s" and "\<not> isDigit c"
    and "c \<in> set (tl s) \<or> (hd s \<noteq> CHR ''+'' \<and> hd s \<noteq> CHR ''-'')"
  shows "\<exists>e. strconv_Atoi s = Inl e"
proof -
  let ?digits = "if hd s = CHR ''+'' \<or> hd s = CHR ''-'' then tl s else s"
  from assms have "c \<in> set ?digits" by auto
  from ParseUint_loop_non_digit [OF this assms(2), of 0]
  show ?thesis
    by (auto simp: strconv_Atoi_def Let_def)
qed

text \<open>
  C6.  For every list of instances, of length \<open>N\<close>:
  the specifications \<open>""\<close> and \<open>none\<close> set no flag;
  \<open>all\<close> makes the watched set \<open>{0, \<dots>, N - 1}\<close>;
  in any other specification, a piece that is not blank after trimming and that
  \<open>strconv.Atoi\<close> rejects gives a parse error, and \<open>strconv.Atoi\<close> rejects every string
  with a byte that is neither a digit nor a sign in front;
  when all pieces parse, an index below \<open>0\<close> or not below \<open>N\<close> gives a range error, and
  when all indexes are in range exactly the listed instances are added to the watched
  set;
  ASCII white space around the pieces and blank pieces between commas do not change
  what \<open>parseInts\<close> returns;
  and when \<open>applyWatch\<close> returns an error, \<open>New\<close> returns that error and no group.
  The instances that \<open>New\<close> builds are unwatched, so the watched set after \<open>applyWatch\<close>
  is the resolved set.
\<close>

theorem watch_set_resolution:
  "applyWatch insts [] = (None, insts) \<and>
   applyWatch insts ''none'' = (None, insts) \<and>
   fst (applyWatch insts ''all'') = None \<and>
   watched (snd (applyWatch insts ''all'')) = {..<length insts} \<and>
   (w \<noteq> [] \<and> w \<noteq> ''none'' \<and> w \<noteq> ''all'' \<and>
    tok \<in> set (strings_SplitSeq w CHR '','') \<and> strings_TrimSpace tok \<noteq> [] \<and>
    strconv_Atoi (strings_TrimSpace tok) = Inl e \<longrightarrow>
      (\<exists>err. applyWatch insts w =
         (Some (Errorf_w ''parse watch'' (Errorf_w ''parse int'' err)), insts))) \<and>
   (parseInts w = Inr indexes \<and> i \<in> set indexes \<and> (i < 0 \<or> int (length insts) \<le> i) \<longrightarrow>
      (\<exists>i'\<in>set indexes. (i' < 0 \<or> int (length insts) \<le> i') \<and>
         fst (applyWatch insts w) = Some (Errorf_d ''parse watch: index out of range'' i'))) \<and>
   (parseInts w = Inr indexes \<and> (\<forall>i\<in>set indexes. 0 \<le> i \<and> i < int (length insts)) \<longrightarrow>
      fst (applyWatch insts w) = None \<and>
      watched (snd (applyWatch insts w)) = watched insts \<union> nat ` set indexes) \<and>
   ((\<forall>(l, t, r)\<in>set padded.
        (\<forall>c\<in>set l. asciiSpace c) \<and> (\<forall>c\<in>set r. asciiSpace c) \<and> CHR '','' \<notin> set t) \<longrightarrow>
      parseInts (strings_Join (map (\<lambda>(l, t, r). l @ t @ r) padded) '','') =
      parseInts (strings_Join (map (\<lambda>(l, t, r). t) padded) '','')) \<and>
   ((\<forall>c\<in>set b. asciiSpace c) \<and> (\<forall>t\<in>set (toks1 @ toks2). CHR '','' \<notin> set t) \<longrightarrow>
      parseInts (strings_Join (toks1 @ b # toks2) '','') =
      parseInts (strings_Join (toks1 @ toks2) '','')) \<and>
   (fold (\<lambda>option opts. option opts) options
        \<lparr>args = [], watch = ''none'', logger = Some DiscardHandler\<rparr> = opts \<and>
    logger opts \<noteq> None \<and> LookPath name = Inr path \<and>
    New_instances path opts = Inr built \<and>
    fst (applyWatch built (watch opts)) = Some err \<longrightarrow>
      New LookPath name options = Inl err) \<and>
   (New_instances path opts = Inr built \<longrightarrow> watched built = {}) \<and>
   (c \<in> set s \<and> \<not> isDigit c \<and>
    (c \<in> set (tl s) \<or> (hd s \<noteq> CHR ''+'' \<and> hd s \<noteq> CHR ''-'')) \<longrightarrow>
      (\<exists>e. strconv_Atoi s = Inl e))"
proof (intro conjI impI)
  show "applyWatch insts [] = (None, insts)" "applyWatch insts ''none'' = (None, insts)"
    by (simp_all add: applyWatch_def)
  show "fst (applyWatch insts ''all'') = None"
    by (simp add: applyWatch_def)
  show "watched (snd (applyWatch insts ''all'')) = {..<length insts}"
    by (simp add: applyWatch_def watched_all)
next
  assume "w \<noteq> [] \<and> w \<noteq> ''none'' \<and> w \<noteq> ''all'' \<and>
    tok \<in> set (strings_SplitSeq w CHR '','') \<and> strings_TrimSpace tok \<noteq> [] \<and>
    strconv_Atoi (strings_TrimSpace tok) = Inl e"
  then show "\<exists>err. applyWatch insts w =
         (Some (Errorf_w ''parse watch'' (Errorf_w ''parse int'' err)), insts)"
    using applyWatch_parse_error by blast
next
  assume "parseInts w = Inr indexes \<and> i \<in> set indexes \<and> (i < 0 \<or> int (length insts) \<le> i)"
  then show "\<exists>i'\<in>set indexes. (i' < 0 \<or> int (length insts) \<le> i') \<and>
         fst (applyWatch insts w) = Some (Errorf_d ''parse watch: index out of range'' i')"
    using applyWatch_range_error by blast
next
  assume h: "parseInts w = Inr indexes \<and> (\<forall>i\<in>set indexes. 0 \<le> i \<and> i < int (length insts))"
  then show "fst (applyWatch insts w) = None"
    and "watched (snd (applyWatch insts w)) = watched insts \<union> nat ` set indexes"
    using applyWatch_in_range [of w indexes insts] by blast+
next
  assume "\<forall>(l, t, r)\<in>set padded.
        (\<forall>c\<in>set l. asciiSpace c) \<and> (\<forall>c\<in>set r. asciiSpace c) \<and> CHR '','' \<notin> set t"
  then show "parseInts (strings_Join (map (\<lambda>(l, t, r). l @ t @ r) padded) '','') =
      parseInts (strings_Join (map (\<lambda>(l, t, r). t) padded) '','')"
    by (rule parseInts_padded)
next
  assume "(\<forall>c\<in>set b. asciiSpace c) \<and> (\<forall>t\<in>set (toks1 @ toks2). CHR '','' \<notin> set t)"
  then show "parseInts (strings_Join (toks1 @ b # toks2) '','') =
      parseInts (strings_Join (toks1 @ toks2) '','')"
    using parseInts_blank_piece by blast
next
  assume "fold (\<lambda>option opts. option opts) options
        \<lparr>args = [], watch = ''none'', logger = Some DiscardHandler\<rparr> = opts \<and>
    logger opts \<noteq> None \<and> LookPath name = Inr path \<and>
    New_instances path opts = Inr built \<and>
    fst (applyWatch built (watch opts)) = Some err"
  then show "New LookPath name options = Inl err"
    using New_watch_error by blast
next
  assume "New_instances path opts = Inr built"
  then show "watched built = {}"
    using New_instances_fresh by blast
next
  assume "c \<in> set s \<and> \<not> isDigit c \<and>
    (c \<in> set (tl s) \<or> (hd s \<noteq> CHR ''+'' \<and> hd s \<noteq> CHR ''-''))"
  then show "\<exists>e. strconv_Atoi s = Inl e"
    using Atoi_non_digit by blast
qed

text \<open>
  Three unwatched instances with the specifications \<open>none\<close>, \<open>all\<close>, \<open>0,a\<close>, \<open>5\<close> and
  \<open>0, 2\<close>; padded and blank pieces; and construction of two instances with the
  specification \<open>2\<close>.
\<close>

theorem watch_set_resolution_witness:
  "applyWatch (Instances threeInstances) ''none'' = (None, Instances threeInstances) \<and>
   watched (snd (applyWatch (Instances threeInstances) ''all'')) = {0, 1, 2} \<and>
   (\<exists>err. applyWatch (Instances threeInstances) ''0,a'' =
      (Some (Errorf_w ''parse watch'' (Errorf_w ''parse int'' err)), Instances threeInstances)) \<and>
   fst (applyWatch (Instances threeInstances) ''5'') =
     Some (Errorf_d ''parse watch: index out of range'' 5) \<and>
   watched (snd (applyWatch (Instances threeInstances) ''0, 2'')) = {0, 2} \<and>
   parseInts '' 0 ,2  '' = parseInts ''0,2'' \<and>
   parseInts ''0, ,2'' = parseInts ''0,2'' \<and>
   New testLookPath ''echo'' [WithArgs [''--'', ''arg1'', ''--'', ''arg2''], WithWatch ''2'']
     = Inl (Errorf_d ''parse watch: index out of range'' 2)"
proof -
  let ?I = "Instances threeInstances"
  let ?options = "[WithArgs [''--'', ''arg1'', ''--'', ''arg2''], WithWatch ''2'']"
  let ?opts = "\<lparr>args = [''--'', ''arg1'', ''--'', ''arg2''], watch = ''2'',
                logger = Some DiscardHandler\<rparr>"
  let ?built = "[\<lparr>Name = ''/usr/bin/echo'', Args = [''arg1''], Watch = False,
                   Logger = Some DiscardHandler\<rparr>,
                 \<lparr>Name = ''/usr/bin/echo'', Args = [''arg2''], Watch = False,
                   Logger = Some DiscardHandler\<rparr>]"
  let ?err = "Errorf_d ''parse watch: index out of range'' 2"
  have n: "length ?I = 3" by (simp add: threeInstances_def)
  have fresh: "watched ?I = {}" by (auto simp: watched_def threeInstances_def nth_Cons')
  note th = watch_set_resolution [where insts = ?I and tok = "''a''"
      and e = "NumError ''Atoi'' ''a'' ErrSyntax"
      and padded = "[('' '', ''0'', '' ''), ('''', ''2'', ''  '')]"
      and b = "'' ''" and ?toks1.0 = "[''0'']" and ?toks2.0 = "[''2'']"
      and options = ?options and opts = ?opts and LookPath = testLookPath
      and name = "''echo''" and path = "''/usr/bin/echo''" and built = ?built and err = ?err
      and c = "CHR ''a''" and s = "''a''"]
  note bad = th [where w = "''0,a''" and indexes = "[]" and i = 0]
  note far = th [where w = "''5''" and indexes = "[5]" and i = 5]
  note two = th [where w = "''0, 2''" and indexes = "[0, 2]" and i = 0]
  have none: "applyWatch ?I ''none'' = (None, ?I)"
    by (rule bad [THEN conjunct2, THEN conjunct1])
  have "watched (snd (applyWatch ?I ''all'')) = {..<length ?I}"
    by (rule bad [THEN conjunct2, THEN conjunct2, THEN conjunct2, THEN conjunct1])
  also have "\<dots> = {0, 1, 2}" unfolding n by auto
  finally have all: "watched (snd (applyWatch ?I ''all'')) = {0, 1, 2}" .
  have tok: "''a'' \<in> set (strings_SplitSeq ''0,a'' CHR '','')"
    and trimmed: "strings_TrimSpace ''a'' \<noteq> []"
    and atoi: "strconv_Atoi (strings_TrimSpace ''a'') = Inl (NumError ''Atoi'' ''a'' ErrSyntax)"
    by code_simp+
  have parse: "\<exists>err. applyWatch ?I ''0,a'' =
      (Some (Errorf_w ''parse watch'' (Errorf_w ''parse int'' err)), ?I)"
    by (rule bad [THEN conjunct2, THEN conjunct2, THEN conjunct2, THEN conjunct2,
          THEN conjunct1, THEN mp]) (simp add: tok trimmed atoi)
  have p5: "parseInts ''5'' = Inr [5]" by code_simp
  have "\<exists>i'\<in>set [5]. (i' < 0 \<or> int (length ?I) \<le> i') \<and>
      fst (applyWatch ?I ''5'') = Some (Errorf_d ''parse watch: index out of range'' i')"
    by (rule far [THEN conjunct2, THEN conjunct2, THEN conjunct2, THEN conjunct2,
          THEN conjunct2, THEN conjunct1, THEN mp]) (simp add: p5 n)
  then have range: "fst (applyWatch ?I ''5'') =
      Some (Errorf_d ''parse watch: index out of range'' 5)"
    by simp
  have p02: "parseInts ''0, 2'' = Inr [0, 2]" by code_simp
  have "fst (applyWatch ?I ''0, 2'') = None \<and>
      watched (snd (applyWatch ?I ''0, 2'')) = watched ?I \<union> nat ` set [0, 2]"
    by (rule two [THEN conjunct2, THEN conjunct2, THEN conjunct2, THEN conjunct2,
          THEN conjunct2, THEN conjunct2, THEN conjunct1, THEN mp]) (simp add: p02 n)
  then have sel: "watched (snd (applyWatch ?I ''0, 2'')) = {0, 2}"
    using fresh by auto
  have "parseInts (strings_Join (map (\<lambda>(l, t, r). l @ t @ r)
            [('' '', ''0'', '' ''), ('''', ''2'', ''  '')]) '','') =
        parseInts (strings_Join (map (\<lambda>(l, t, r). t)
            [('' '', ''0'', '' ''), ('''', ''2'', ''  '')]) '','')"
    by (rule bad [THEN conjunct2, THEN conjunct2, THEN conjunct2, THEN conjunct2,
          THEN conjunct2, THEN conjunct2, THEN conjunct2, THEN conjunct1, THEN mp])
      (simp add: asciiSpace_def)
  then have pad: "parseInts '' 0 ,2  '' = parseInts ''0,2''"
    by simp
  have "parseInts (strings_Join ([''0''] @ '' '' # [''2'']) '','') =
        parseInts (strings_Join ([''0''] @ [''2'']) '','')"
    by (rule bad [THEN conjunct2, THEN conjunct2, THEN conjunct2, THEN conjunct2,
          THEN conjunct2, THEN conjunct2, THEN conjunct2, THEN conjunct2, THEN conjunct1,
          THEN mp])
      (simp add: asciiSpace_def)
  then have blank: "parseInts ''0, ,2'' = parseInts ''0,2''"
    by simp
  have o: "fold (\<lambda>option opts. option opts) ?options
        \<lparr>args = [], watch = ''none'', logger = Some DiscardHandler\<rparr> = ?opts"
    by (simp add: WithArgs_def WithWatch_def)
  have lp: "testLookPath ''echo'' = Inr ''/usr/bin/echo''"
    by (simp add: testLookPath_def)
  have bu: "New_instances ''/usr/bin/echo'' ?opts = Inr ?built"
    by (simp add: New_instances_def parseArgs_def slicesSplitSeq_def)
  have aw: "fst (applyWatch ?built (watch ?opts)) = Some ?err"
    by code_simp
  have new: "New testLookPath ''echo'' ?options = Inl ?err"
    by (rule bad [THEN conjunct2, THEN conjunct2, THEN conjunct2, THEN conjunct2,
          THEN conjunct2, THEN conjunct2, THEN conjunct2, THEN conjunct2, THEN conjunct2,
          THEN conjunct1, THEN mp])
      (simp only: o lp bu aw, simp)
  show ?thesis
    by (intro conjI none all parse range sel pad blank new)
qed


end
